theory Spec2Isabelle
  imports Complex_Main "HOL-Library.AList" "HOL-Library.Option_ord" "HOL-Library.Product_Lexorder" "HOL-Library.Sublist"
begin

section \<open>Data model\<close>

text \<open>
  The planner and the simulator of the plant (\<^verbatim>\<open>app/services/planning.py\<close>,
  \<^verbatim>\<open>simulation.py\<close>, \<^verbatim>\<open>purchase_order.py\<close>, \<^verbatim>\<open>inventory.py\<close>) work on rows of a
  relational store and on a few process-wide dictionaries. A table is a list of rows in
  storage order, a row is a record with the attributes the services read or write, a
  calendar date is its day number, a timestamp is a number of days (with a fraction),
  Python's unbounded \<^verbatim>\<open>int\<close> is \<^typ>\<open>int\<close>.

  Python's \<^verbatim>\<open>float\<close> is idealised as an exact rational: products, quotients and sums
  below carry no binary rounding error. Every concrete input evaluated in this theory
  uses values (small integers, halves, quarters) on which IEEE double arithmetic is exact
  as well.
\<close>

type_synonym date = int
type_synonym datetime = rat

record Line =
  line_id :: string
  l_product_id :: string
  daily_capacity :: int
  oee_pct :: rat

record Order =
  order_id :: string
  o_product_id :: string
  quantity :: int
  start_date :: "date option"
  dispatch_date :: "date option"
  status :: string
  priority :: int
  is_spike :: bool

record BOMItem =
  b_product_id :: string
  b_material_id :: string
  quantity_per_unit :: int

record InventoryItem =
  i_material_id :: string
  i_supplier_id :: string
  current_stock :: int

record Supplier =
  supplier_id :: string
  lead_time_days :: int

record PurchaseOrder =
  po_id :: string
  po_material_id :: string
  po_supplier_id :: string
  po_quantity :: int
  po_order_date :: date
  eta_date :: date
  po_status :: string

record PlanRun =
  run_id :: string
  scenario :: string
  created_at :: datetime

record ProductPlan =
  plan_id :: string
  pp_run_id :: string
  plan_date :: date
  pp_status :: string

record PlanItem =
  item_id :: int
  pi_plan_id :: string
  pi_line_id :: string
  pi_product_id :: string
  planned_qty :: int
  start_ts :: datetime
  end_ts :: datetime

record OrderAllocation =
  oa_run_id :: string
  oa_plan_id :: string
  oa_order_id :: string
  oa_line_id :: string
  oa_product_id :: string
  allocated_qty :: int
  plan_item_id :: int

text \<open>
  The stochastic profile of a line within a run. The five noise parameters are constants
  of the planner and are left out.
\<close>

record LineShiftProfile =
  lsp_run_id :: string
  lsp_line_id :: string
  lsp_shift_id :: string
  lsp_product_id :: string
  base_rate_units_per_hour :: rat
  base_defect_rate_pct :: rat
  base_uptime_pct :: rat
  base_worker_availability_pct :: rat
  base_energy_kwh_per_unit :: rat

text \<open>
  \<^verbatim>\<open>log_event\<close> appends an \<^verbatim>\<open>Event\<close> row with a random id and the current time. The
  model keeps the event type and, in place of the formatted description, the identifiers
  that are interpolated into it.
\<close>

datatype Event = Event (event_type: string) (event_about: "string list")

definition log_event :: "Event list \<Rightarrow> string \<Rightarrow> string list \<Rightarrow> Event list" where
  "log_event evs ty about = evs @ [Event ty about]"

text \<open>The tables of the session.\<close>

record DB =
  orders :: "Order list"
  lines :: "Line list"
  bom_items :: "BOMItem list"
  inv_items :: "InventoryItem list"
  suppliers :: "Supplier list"
  purchase_orders :: "PurchaseOrder list"
  plan_runs :: "PlanRun list"
  product_plans :: "ProductPlan list"
  plan_items :: "PlanItem list"
  order_allocations :: "OrderAllocation list"
  line_shift_profiles :: "LineShiftProfile list"
  events :: "Event list"

text \<open>
  The module-level dictionaries of \<^verbatim>\<open>inventory.py\<close> that the simulation and the
  replenishment share: the live stock ledger, the seed stock and the BOM index.
\<close>

record InventoryModule =
  inventory_state :: "string \<rightharpoonup> int"
  initial_inventory_by_material :: "string \<rightharpoonup> int"
  bom_by_product :: "string \<rightharpoonup> BOMItem list"

text \<open>
  The exceptions that the modelled code can raise. An exception ends the unit of work it
  is raised in.
\<close>

datatype py_error = TypeError | IntegrityError | OverflowError | ValueError | ZeroDivisionError

text \<open>
  \<^verbatim>\<open>date + timedelta(days=n)\<close>. The day number of a calendar date is its proleptic
  Gregorian ordinal, from 1 (0001-01-01) to 3652059 (9999-12-31). \<^verbatim>\<open>timedelta\<close> takes at
  most 999999999 days in either direction, and the sum has to be a calendar date.
\<close>

definition py_date_add_days :: "date \<Rightarrow> int \<Rightarrow> py_error + date" where
  "py_date_add_days d n =
     (if \<bar>n\<bar> > 999999999 then Inl OverflowError
      else if d + n < 1 \<or> 3652059 < d + n then Inl OverflowError
      else Inr (d + n))"

text \<open>
  An integer column of the store holds a signed 64-bit value; writing a Python \<^verbatim>\<open>int\<close>
  outside this range raises \<^verbatim>\<open>OverflowError\<close>.
\<close>

definition fits_store_int :: "int \<Rightarrow> bool" where
  "fits_store_int i = (- (2 ^ 63) \<le> i \<and> i < 2 ^ 63)"

text \<open>\<^verbatim>\<open>d.get(k, default)\<close> on a dictionary, and on a dictionary that keeps insertion order.\<close>

definition dict_get :: "('k \<rightharpoonup> 'v) \<Rightarrow> 'k \<Rightarrow> 'v \<Rightarrow> 'v" where
  "dict_get d k dflt = (case d k of None \<Rightarrow> dflt | Some v \<Rightarrow> v)"

definition alist_get :: "('k \<times> 'v) list \<Rightarrow> 'k \<Rightarrow> 'v \<Rightarrow> 'v" where
  "alist_get d k dflt = (case map_of d k of None \<Rightarrow> dflt | Some v \<Rightarrow> v)"

section \<open>Line occupancy\<close>

type_synonym occupancy = "(datetime \<times> datetime \<times> int) list"

text \<open>\<^verbatim>\<open>occ[1]\<close> of an occupancy triple \<^verbatim>\<open>(start_ts, end_ts, item_id)\<close>.\<close>

definition occ_end :: "datetime \<times> datetime \<times> int \<Rightarrow> datetime" where
  "occ_end occ = fst (snd occ)"

text \<open>
  \<^verbatim>\<open>get_line_available_start\<close>: the desired start on a free line; otherwise
  \<^verbatim>\<open>latest_end = max(occ[1] for occ in line_occupancy)\<close>, a left-to-right scan, and the
  later of the two.
\<close>

definition get_line_available_start :: "occupancy \<Rightarrow> datetime \<Rightarrow> datetime" where
  "get_line_available_start line_occupancy desired_start =
     (case line_occupancy of
        [] \<Rightarrow> desired_start
      | occ # rest \<Rightarrow>
          (let latest_end = fold (\<lambda>x m. if m < occ_end x then occ_end x else m) rest (occ_end occ)
           in if desired_start \<ge> latest_end then desired_start else latest_end))"

text \<open>
  \<^verbatim>\<open>get_line_occupancy\<close>: the plan items joined with the product plans of the run, grouped
  by line in row order, each group sorted by start time (Python's sort is stable).
\<close>

definition get_line_occupancy :: "DB \<Rightarrow> string \<Rightarrow> (string \<rightharpoonup> occupancy)" where
  "get_line_occupancy db run =
     (let items = [item. item \<leftarrow> plan_items db, p \<leftarrow> product_plans db,
                     pi_plan_id item = plan_id p \<and> pp_run_id p = run];
          occ = fold (\<lambda>item occ.
                   occ(pi_line_id item \<mapsto>
                       dict_get occ (pi_line_id item) [] @ [(start_ts item, end_ts item, item_id item)]))
                 items Map.empty
      in (\<lambda>lin. map_option (sort_key fst) (occ lin)))"

section \<open>Replenishment\<close>

text \<open>
  \<^verbatim>\<open>update_purchase_orders\<close>: the query selects the purchase orders whose status is not
  \<^verbatim>\<open>DELIVERED\<close>; each of them whose ETA is reached adds its quantity to the ledger entry
  of its material (a missing entry counts as 0), becomes \<^verbatim>\<open>DELIVERED\<close> and is logged.
  The rows are updated in place, so the table keeps its order.
\<close>

fun deliver_loop ::
  "date \<Rightarrow> PurchaseOrder list \<Rightarrow> (string \<rightharpoonup> int) \<Rightarrow> Event list
   \<Rightarrow> PurchaseOrder list \<times> (string \<rightharpoonup> int) \<times> Event list" where
  "deliver_loop today_d [] st evs = ([], st, evs)"
| "deliver_loop today_d (po # pos) st evs =
     (if po_status po \<noteq> ''DELIVERED'' \<and> today_d \<ge> eta_date po then
        (let current = dict_get st (po_material_id po) 0;
             st' = st(po_material_id po \<mapsto> current + po_quantity po);
             po' = po\<lparr>po_status := ''DELIVERED''\<rparr>;
             evs' = log_event evs ''PO_DELIVERED'' [po_id po, po_material_id po]
         in case deliver_loop today_d pos st' evs' of
              (pos', st'', evs'') \<Rightarrow> (po' # pos', st'', evs''))
      else
        (case deliver_loop today_d pos st evs of
           (pos', st'', evs'') \<Rightarrow> (po # pos', st'', evs'')))"

definition update_purchase_orders :: "date \<Rightarrow> DB \<times> InventoryModule \<Rightarrow> DB \<times> InventoryModule" where
  "update_purchase_orders today_d s =
     (case s of (db, im) \<Rightarrow>
        (case deliver_loop today_d (purchase_orders db) (inventory_state im) (events db) of
           (pos', st', evs') \<Rightarrow>
             (db\<lparr>purchase_orders := pos', events := evs'\<rparr>, im\<lparr>inventory_state := st'\<rparr>)))"

text \<open>
  \<^verbatim>\<open>check_and_place_purchase_orders\<close>. The two aggregation dictionaries keep insertion
  order, which is the order of the placement loop.
\<close>

definition qty_by_product_of :: "Order list \<Rightarrow> (string \<times> int) list" where
  "qty_by_product_of os =
     fold (\<lambda>ord acc. AList.update (o_product_id ord) (alist_get acc (o_product_id ord) 0 + quantity ord) acc)
          os []"

definition required_by_material_of ::
  "(string \<rightharpoonup> BOMItem list) \<Rightarrow> (string \<times> int) list \<Rightarrow> (string \<times> int) list" where
  "required_by_material_of all_bom qty_by_product =
     fold (\<lambda>(product_id, total_qty) req.
             fold (\<lambda>b req. AList.update (b_material_id b)
                              (alist_get req (b_material_id b) 0 + quantity_per_unit b * total_qty) req)
                  (dict_get all_bom product_id []) req)
          qty_by_product []"

text \<open>
  \<^verbatim>\<open>{i.material_id: i for i in inv_items}\<close> over the inventory rows of the required
  materials: a later row replaces an earlier one with the same key.
\<close>

definition inv_by_id_of :: "InventoryItem list \<Rightarrow> string list \<Rightarrow> (string \<rightharpoonup> InventoryItem)" where
  "inv_by_id_of items mat_ids =
     map_of (rev (map (\<lambda>i. (i_material_id i, i)) (filter (\<lambda>i. i_material_id i \<in> set mat_ids) items)))"

text \<open>
  The identifier \<^verbatim>\<open>f"PO-{mid}-{today_d.isoformat()}"\<close>; the rendering of a date is a
  parameter of the model.
\<close>

definition mk_po_id :: "(date \<Rightarrow> string) \<Rightarrow> string \<Rightarrow> date \<Rightarrow> string" where
  "mk_po_id isoformat mid today_d = ''PO-'' @ mid @ ''-'' @ isoformat today_d"

text \<open>
  The placement loop over \<^verbatim>\<open>required_by_material.items()\<close>. The ETA is
  \<^verbatim>\<open>today_d + timedelta(days=supplier.lead_time_days)\<close>, which raises when it is not a
  calendar date. The new row is written at the next flush (the query for an open purchase
  order of the next material, or the commit), so the later materials see it; the write
  raises \<^verbatim>\<open>OverflowError\<close> when the quantity does not fit the integer column, and fails
  (\<^const>\<open>IntegrityError\<close>) when \<^verbatim>\<open>po_id\<close>, the primary key, is the key of a row of the
  table.
\<close>

fun place_loop ::
  "(date \<Rightarrow> string) \<Rightarrow> date \<Rightarrow> InventoryModule \<Rightarrow> (string \<rightharpoonup> InventoryItem) \<Rightarrow> Supplier list
   \<Rightarrow> (string \<times> int) list \<Rightarrow> PurchaseOrder list \<Rightarrow> Event list
   \<Rightarrow> py_error + (PurchaseOrder list \<times> Event list)" where
  "place_loop isoformat today_d im inv_by_id sups [] pos evs = Inr (pos, evs)"
| "place_loop isoformat today_d im inv_by_id sups ((mid, required) # rest) pos evs =
     (case inv_by_id mid of
        None \<Rightarrow>
          place_loop isoformat today_d im inv_by_id sups rest pos
            (log_event evs ''SUPPLIER_MISSING'' [mid])
      | Some i \<Rightarrow>
          (let seed = dict_get (initial_inventory_by_material im) mid (current_stock i);
               current = dict_get (inventory_state im) mid seed;
               remaining_requirement = max 0 (required - current)
           in if remaining_requirement \<le> 0 then
                place_loop isoformat today_d im inv_by_id sups rest pos evs
              else if list_ex (\<lambda>po. po_material_id po = mid \<and> po_status po \<noteq> ''DELIVERED'') pos then
                place_loop isoformat today_d im inv_by_id sups rest pos evs
              else
                (case find (\<lambda>s. supplier_id s = i_supplier_id i) sups of
                   None \<Rightarrow>
                     place_loop isoformat today_d im inv_by_id sups rest pos
                       (log_event evs ''SUPPLIER_MISSING'' [mid])
                 | Some supplier \<Rightarrow>
                     (case py_date_add_days today_d (lead_time_days supplier) of
                        Inl e \<Rightarrow> Inl e
                      | Inr eta \<Rightarrow>
                          (let new_id = mk_po_id isoformat mid today_d;
                               po = \<lparr>po_id = new_id, po_material_id = mid,
                                     po_supplier_id = supplier_id supplier,
                                     po_quantity = remaining_requirement,
                                     po_order_date = today_d, eta_date = eta,
                                     po_status = ''PLACED''\<rparr>
                           in if \<not> fits_store_int remaining_requirement then Inl OverflowError
                              else if new_id \<in> set (map po_id pos) then Inl IntegrityError
                              else place_loop isoformat today_d im inv_by_id sups rest (pos @ [po])
                                     (log_event evs ''PO_CREATED'' [new_id, mid]))))))"

definition check_and_place_purchase_orders ::
  "(date \<Rightarrow> string) \<Rightarrow> date \<Rightarrow> InventoryModule \<Rightarrow> DB \<Rightarrow> py_error + DB" where
  "check_and_place_purchase_orders isoformat today_d im db =
     (if orders db = [] then Inr db
      else
        (let qty_by_product = qty_by_product_of (orders db) in
         if qty_by_product = [] then Inr db
         else
           (let required_by_material = required_by_material_of (bom_by_product im) qty_by_product in
            if required_by_material = [] then Inr db
            else
              (let mat_ids = map fst required_by_material;
                   inv_by_id = inv_by_id_of (inv_items db) mat_ids
               in case place_loop isoformat today_d im inv_by_id (suppliers db)
                         required_by_material (purchase_orders db) (events db) of
                    Inl e \<Rightarrow> Inl e
                  | Inr (pos', evs') \<Rightarrow> Inr (db\<lparr>purchase_orders := pos', events := evs'\<rparr>)))))"

section \<open>Consumption of inventory by the simulation\<close>

text \<open>
  The part of \<^verbatim>\<open>step_simulation_once\<close> that touches the ledger: for each completed
  integer unit of a line, each BOM entry of the line's product takes its quantity out of
  the ledger, not below zero. The number of units a line completes in a tick comes from a
  random throughput; it is an input here, \<^verbatim>\<open>delta_units = max(0, new_int - old_int)\<close>.
\<close>

definition consume_bom :: "BOMItem \<Rightarrow> (string \<rightharpoonup> int) \<Rightarrow> (string \<rightharpoonup> int)" where
  "consume_bom bom st =
     (let current_stock = dict_get st (b_material_id bom) 0
      in st(b_material_id bom \<mapsto> max 0 (current_stock - quantity_per_unit bom)))"

definition consume_unit :: "BOMItem list \<Rightarrow> (string \<rightharpoonup> int) \<Rightarrow> (string \<rightharpoonup> int)" where
  "consume_unit bom_list st = fold consume_bom bom_list st"

fun consume_units :: "nat \<Rightarrow> BOMItem list \<Rightarrow> (string \<rightharpoonup> int) \<Rightarrow> (string \<rightharpoonup> int)" where
  "consume_units 0 bom_list st = st"
| "consume_units (Suc n) bom_list st = consume_units n bom_list (consume_unit bom_list st)"

text \<open>
  One line of the per-line loop: \<^verbatim>\<open>product_by_line.get(line_id)\<close> may be \<^verbatim>\<open>None\<close>, for
  which the BOM index has no entry.
\<close>

definition consume_for_line ::
  "(string \<rightharpoonup> string) \<Rightarrow> (string \<rightharpoonup> BOMItem list) \<Rightarrow> string \<Rightarrow> int \<Rightarrow> int
   \<Rightarrow> (string \<rightharpoonup> int) \<Rightarrow> (string \<rightharpoonup> int)" where
  "consume_for_line product_by_line bom_idx lin old_int new_int st =
     (let bom_list = (case product_by_line lin of
                        None \<Rightarrow> []
                      | Some product_id \<Rightarrow> dict_get bom_idx product_id []);
          delta_units = max 0 (new_int - old_int)
      in consume_units (nat delta_units) bom_list st)"

text \<open>
  The per-line loop of one tick, as far as the ledger goes: the lines in the order of
  \<^verbatim>\<open>line_state\<close>, each with its integer counter before and after the tick.
\<close>

definition consume_tick ::
  "(string \<rightharpoonup> string) \<Rightarrow> (string \<rightharpoonup> BOMItem list) \<Rightarrow> (string \<times> int \<times> int) list
   \<Rightarrow> (string \<rightharpoonup> int) \<Rightarrow> (string \<rightharpoonup> int)" where
  "consume_tick product_by_line bom_idx counters st =
     fold (\<lambda>(lin, old_int, new_int). consume_for_line product_by_line bom_idx lin old_int new_int)
          counters st"

section \<open>The plan run\<close>

text \<open>
  \<^verbatim>\<open>get_or_create_plan_run\<close>: the \<^verbatim>\<open>BASELINE\<close> run with the latest creation time (among
  equal times, the first row), or a new one. The identifier of a new run is
  \<^verbatim>\<open>RUN-\<close> followed by the formatted clock; the formatted identifier and the clock are
  parameters. \<^verbatim>\<open>run_id\<close> is the primary key of the table, so flushing a new run whose
  identifier is taken fails.
\<close>

definition latest_baseline :: "PlanRun list \<Rightarrow> PlanRun option" where
  "latest_baseline runs =
     (case rev (sort_key created_at (rev (filter (\<lambda>r. scenario r = ''BASELINE'') runs))) of
        [] \<Rightarrow> None
      | r # _ \<Rightarrow> Some r)"

definition get_or_create_plan_run ::
  "string \<Rightarrow> datetime \<Rightarrow> DB \<Rightarrow> py_error + (PlanRun \<times> bool \<times> DB)" where
  "get_or_create_plan_run new_run_id now db =
     (case latest_baseline (plan_runs db) of
        Some existing_run \<Rightarrow> Inr (existing_run, False, db)
      | None \<Rightarrow>
          if new_run_id \<in> set (map run_id (plan_runs db)) then Inl IntegrityError
          else
            (let new_run = \<lparr>run_id = new_run_id, scenario = ''BASELINE'', created_at = now\<rparr>
             in Inr (new_run, True, db\<lparr>plan_runs := plan_runs db @ [new_run]\<rparr>)))"

text \<open>
  \<^verbatim>\<open>get_already_allocated_orders\<close>: the orders whose allocations in the run add up to at
  least their quantity.
\<close>

definition get_already_allocated_orders :: "DB \<Rightarrow> string \<Rightarrow> string list" where
  "get_already_allocated_orders db run =
     (let allocations = filter (\<lambda>a. oa_run_id a = run) (order_allocations db);
          allocated_by_order =
            fold (\<lambda>alloc acc. AList.update (oa_order_id alloc)
                                 (alist_get acc (oa_order_id alloc) 0 + allocated_qty alloc) acc)
                 allocations []
      in map fst
           (filter (\<lambda>(oid, qty).
                      (case find (\<lambda>ord. order_id ord = oid) (orders db) of
                         None \<Rightarrow> False
                       | Some ord \<Rightarrow> qty \<ge> quantity ord))
                   allocated_by_order))"

section \<open>Spike preemption\<close>

definition mk_plan_id :: "string \<Rightarrow> string \<Rightarrow> string" where
  "mk_plan_id run oid = ''PLAN-'' @ run @ ''-'' @ oid"

text \<open>
  The body of the loop over \<^verbatim>\<open>orders_to_hold\<close>: the allocations of the order in the run
  are deleted together with the plan items they point to, then the product plan of the
  order, and the order is put on hold. Rows are addressed by their primary keys.
\<close>

definition preempt_order :: "string \<Rightarrow> string \<Rightarrow> string \<Rightarrow> Order \<Rightarrow> DB \<Rightarrow> DB" where
  "preempt_order run product_id spike_id ord db =
     (let allocations = filter (\<lambda>a. oa_run_id a = run \<and> oa_order_id a = order_id ord)
                               (order_allocations db);
          linked = map plan_item_id allocations;
          pid = mk_plan_id run (order_id ord)
      in db\<lparr>plan_items := filter (\<lambda>item. item_id item \<notin> set linked) (plan_items db),
            order_allocations :=
              filter (\<lambda>a. \<not> (oa_run_id a = run \<and> oa_order_id a = order_id ord)) (order_allocations db),
            product_plans := filter (\<lambda>p. plan_id p \<noteq> pid) (product_plans db),
            orders := map (\<lambda>x. if order_id x = order_id ord then x\<lparr>status := ''ON_HOLD''\<rparr> else x)
                          (orders db),
            events := log_event (events db) ''ORDER_PREEMPTED'' [order_id ord, product_id, spike_id]\<rparr>)"

definition orders_to_hold_of :: "Order \<Rightarrow> DB \<Rightarrow> Order list" where
  "orders_to_hold_of spike_order db =
     (let competing_orders =
            filter (\<lambda>x. o_product_id x = o_product_id spike_order \<and> is_spike x = False
                        \<and> (status x = ''OPEN'' \<or> status x = ''ON_HOLD''))
                   (orders db)
      in filter (\<lambda>x. order_id x \<noteq> order_id spike_order) competing_orders)"

definition handle_spike_preemption :: "string \<Rightarrow> Order \<Rightarrow> DB \<Rightarrow> DB \<times> (string \<rightharpoonup> occupancy)" where
  "handle_spike_preemption run spike_order db =
     (let orders_to_hold = orders_to_hold_of spike_order db
      in if orders_to_hold = [] then (db, get_line_occupancy db run)
         else
           (let db' = fold (preempt_order run (o_product_id spike_order) (order_id spike_order))
                           orders_to_hold db
            in (db', get_line_occupancy db' run)))"

section \<open>The allocator\<close>

text \<open>
  Python's \<^verbatim>\<open>round\<close> of a float to an integer rounds a tie to the even neighbour;
  \<^verbatim>\<open>int\<close> of a float truncates towards zero.
\<close>

definition py_round :: "rat \<Rightarrow> int" where
  "py_round x =
     (let f = \<lfloor>x\<rfloor>; d = x - of_int f
      in if d < 1 / 2 then f else if 1 / 2 < d then f + 1 else if even f then f else f + 1)"

definition py_int :: "rat \<Rightarrow> int" where
  "py_int x = (if 0 \<le> x then \<lfloor>x\<rfloor> else \<lceil>x\<rceil>)"

definition horizon_start_of :: "date \<Rightarrow> Order \<Rightarrow> date" where
  "horizon_start_of today ord = (case start_date ord of Some d \<Rightarrow> d | None \<Rightarrow> today)"

definition horizon_days_of :: "date \<Rightarrow> int \<Rightarrow> Order \<Rightarrow> int" where
  "horizon_days_of today horizon_days_default ord =
     (let horizon_start = horizon_start_of today ord;
          horizon_end = (case dispatch_date ord of
                           Some d \<Rightarrow> d
                         | None \<Rightarrow> today + horizon_days_default)
      in max 1 (horizon_end - horizon_start))"

text \<open>Step 10.3: the capacity of each line in the horizon and their total.\<close>

definition cap_units_of :: "int \<Rightarrow> Line \<Rightarrow> rat" where
  "cap_units_of horizon_days lin =
     (let eff_daily_cap = of_int (daily_capacity lin) * oee_pct lin
      in eff_daily_cap * of_int horizon_days)"

fun capacity_loop ::
  "int \<Rightarrow> Line list \<Rightarrow> (string \<rightharpoonup> rat) \<times> rat \<Rightarrow> (string \<rightharpoonup> rat) \<times> rat" where
  "capacity_loop horizon_days [] acc = acc"
| "capacity_loop horizon_days (lin # lins) (line_capacity, total_capacity_units) =
     (let cap_units = cap_units_of horizon_days lin
      in if cap_units \<le> 0 then
           capacity_loop horizon_days lins (line_capacity, total_capacity_units)
         else
           capacity_loop horizon_days lins
             (line_capacity(line_id lin \<mapsto> cap_units), total_capacity_units + cap_units))"

text \<open>
  \<^verbatim>\<open>max_units_from_inventory\<close> and \<^verbatim>\<open>consume_inventory\<close>, the two closures over the
  stock snapshot and the planned usage of the current pass.
\<close>

definition max_units_from_inventory ::
  "BOMItem list \<Rightarrow> (string \<rightharpoonup> int) \<Rightarrow> (string \<rightharpoonup> int) \<Rightarrow> string \<Rightarrow> int" where
  "max_units_from_inventory boms stock_by_material planned_usage product_id =
     (let bom_list = filter (\<lambda>b. b_product_id b = product_id) boms
      in if bom_list = [] then 1000000000
         else
           fold (\<lambda>b max_units.
                   if quantity_per_unit b \<le> 0 then max_units
                   else
                     (let available = dict_get stock_by_material (b_material_id b) 0
                                      - dict_get planned_usage (b_material_id b) 0;
                          units_for_material = available div quantity_per_unit b
                      in min max_units (max 0 units_for_material)))
                bom_list 1000000000)"

definition consume_inventory ::
  "BOMItem list \<Rightarrow> string \<Rightarrow> int \<Rightarrow> (string \<rightharpoonup> int) \<Rightarrow> (string \<rightharpoonup> int)" where
  "consume_inventory boms product_id units planned_usage =
     fold (\<lambda>b pu. pu(b_material_id b \<mapsto> dict_get pu (b_material_id b) 0 + units * quantity_per_unit b))
          (filter (\<lambda>b. b_product_id b = product_id) boms) planned_usage"

text \<open>Step 10.5: the quantity to plan for the order.\<close>

definition target_qty_of :: "int \<Rightarrow> rat \<Rightarrow> int \<Rightarrow> int" where
  "target_qty_of order_quantity total_capacity_units inv_limit =
     min order_quantity (min (py_int total_capacity_units) inv_limit)"

text \<open>
  Step 10.6: the split in proportion to capacity, each share rounded and cut to what is
  left, followed by the pass that hands the leftover out one unit per line, the lines
  taken by capacity from the largest down (\<^verbatim>\<open>sorted(..., reverse=True)\<close> keeps the
  original order among equal keys).
\<close>

fun distribute_loop ::
  "int \<Rightarrow> rat \<Rightarrow> (string \<rightharpoonup> rat) \<Rightarrow> Line list \<Rightarrow> int \<times> (string \<rightharpoonup> int)
   \<Rightarrow> int \<times> (string \<rightharpoonup> int)" where
  "distribute_loop target_qty total_capacity_units line_capacity [] acc = acc"
| "distribute_loop target_qty total_capacity_units line_capacity (lin # lins)
       (remaining_to_allocate, allocations) =
     (let cap_units = dict_get line_capacity (line_id lin) 0
      in if cap_units \<le> 0 \<or> remaining_to_allocate \<le> 0 then
           distribute_loop target_qty total_capacity_units line_capacity lins
             (remaining_to_allocate, allocations)
         else
           (let share = cap_units / total_capacity_units;
                qty_for_line = py_round (of_int target_qty * share);
                qty_for_line = max 0 (min qty_for_line remaining_to_allocate)
            in distribute_loop target_qty total_capacity_units line_capacity lins
                 (remaining_to_allocate - qty_for_line,
                  allocations(line_id lin \<mapsto> dict_get allocations (line_id lin) 0 + qty_for_line))))"

definition sorted_desc :: "('a \<Rightarrow> rat) \<Rightarrow> 'a list \<Rightarrow> 'a list" where
  "sorted_desc key xs = rev (sort_key key (rev xs))"

fun topup_loop :: "Line list \<Rightarrow> int \<times> (string \<rightharpoonup> int) \<Rightarrow> int \<times> (string \<rightharpoonup> int)" where
  "topup_loop [] acc = acc"
| "topup_loop (lin # lins) (remaining_to_allocate, allocations) =
     (if remaining_to_allocate \<le> 0 then (remaining_to_allocate, allocations)
      else topup_loop lins
             (remaining_to_allocate - 1,
              allocations(line_id lin \<mapsto> dict_get allocations (line_id lin) 0 + 1)))"

definition allocate_lines ::
  "int \<Rightarrow> rat \<Rightarrow> (string \<rightharpoonup> rat) \<Rightarrow> Line list \<Rightarrow> int \<times> (string \<rightharpoonup> int)" where
  "allocate_lines target_qty total_capacity_units line_capacity order_lines =
     (case distribute_loop target_qty total_capacity_units line_capacity order_lines
             (target_qty, Map.empty) of
        (remaining_to_allocate, allocations) \<Rightarrow>
          if 0 < remaining_to_allocate then
            topup_loop (sorted_desc (\<lambda>l. dict_get line_capacity (line_id l) 0) order_lines)
              (remaining_to_allocate, allocations)
          else (remaining_to_allocate, allocations))"

text \<open>
  The state of a planning pass: the session, the material reserved so far in this pass
  and the occupancy of the lines.
\<close>

record PlanState =
  ps_db :: DB
  ps_planned_usage :: "string \<rightharpoonup> int"
  ps_line_occupancy :: "string \<rightharpoonup> occupancy"

text \<open>
  \<^verbatim>\<open>item_id\<close> is assigned by the store when the plan item is flushed: a key above every
  key in the table.
\<close>

definition next_item_id :: "PlanItem list \<Rightarrow> int" where
  "next_item_id items = fold (\<lambda>item m. max m (item_id item + 1)) items 1"

text \<open>
  Step 10.7: a plan item and an order allocation for every line with a share. The body of
  the loop for a line with the share \<open>alloc\<close> reserves the material, schedules the line
  after its latest booking and adds the two rows.
\<close>

definition create_item ::
  "string \<Rightarrow> string \<Rightarrow> Order \<Rightarrow> date \<Rightarrow> int \<Rightarrow> Line \<Rightarrow> PlanState \<Rightarrow> PlanState" where
  "create_item run pid ord horizon_start alloc lin st =
     (let db = ps_db st;
          product_id = o_product_id ord;
          pu' = consume_inventory (bom_items db) product_id alloc (ps_planned_usage st);
          eff_daily_cap = of_int (daily_capacity lin) * oee_pct lin;
          duration_days = (if 0 < eff_daily_cap then of_int alloc / eff_daily_cap else 0);
          base_start = of_int horizon_start;
          line_occ = dict_get (ps_line_occupancy st) (line_id lin) [];
          start = get_line_available_start line_occ base_start;
          finish = start + duration_days;
          new_id = next_item_id (plan_items db);
          plan_item = \<lparr>item_id = new_id, pi_plan_id = pid, pi_line_id = line_id lin,
                       pi_product_id = product_id, planned_qty = alloc,
                       start_ts = start, end_ts = finish\<rparr>;
          oa = \<lparr>oa_run_id = run, oa_plan_id = pid, oa_order_id = order_id ord,
                oa_line_id = line_id lin, oa_product_id = product_id,
                allocated_qty = alloc, plan_item_id = new_id\<rparr>;
          db' = db\<lparr>plan_items := plan_items db @ [plan_item],
                    order_allocations := order_allocations db @ [oa]\<rparr>
      in st\<lparr>ps_db := db', ps_planned_usage := pu',
            ps_line_occupancy :=
              (ps_line_occupancy st)(line_id lin \<mapsto> line_occ @ [(start, finish, new_id)])\<rparr>)"

fun create_items_loop ::
  "string \<Rightarrow> string \<Rightarrow> Order \<Rightarrow> date \<Rightarrow> (string \<rightharpoonup> int) \<Rightarrow> Line list \<Rightarrow> PlanState \<times> int
   \<Rightarrow> PlanState \<times> int" where
  "create_items_loop run pid ord horizon_start allocations [] acc = acc"
| "create_items_loop run pid ord horizon_start allocations (lin # lins) (st, allocated_total) =
     (let alloc = dict_get allocations (line_id lin) 0
      in if alloc \<le> 0 then
           create_items_loop run pid ord horizon_start allocations lins (st, allocated_total)
         else
           create_items_loop run pid ord horizon_start allocations lins
             (create_item run pid ord horizon_start alloc lin st, allocated_total + alloc))"

definition add_event :: "string \<Rightarrow> string list \<Rightarrow> PlanState \<Rightarrow> PlanState" where
  "add_event ty about st = st\<lparr>ps_db := (ps_db st)\<lparr>events := log_event (events (ps_db st)) ty about\<rparr>\<rparr>"

text \<open>
  Steps 10.2 to 10.8 for one order whose product plan has just been added:
  \<^verbatim>\<open>stock\<close> is the stock snapshot of the pass, \<^verbatim>\<open>order_lines\<close> the lines of the product.
\<close>

definition allocate_order ::
  "date \<Rightarrow> int \<Rightarrow> string \<Rightarrow> (string \<rightharpoonup> int) \<Rightarrow> Order \<Rightarrow> Line list \<Rightarrow> PlanState \<Rightarrow> PlanState" where
  "allocate_order today horizon_days_default run stock ord order_lines st =
     (let product_id = o_product_id ord;
          pid = mk_plan_id run (order_id ord);
          horizon_start = horizon_start_of today ord;
          horizon_days = horizon_days_of today horizon_days_default ord
      in case capacity_loop horizon_days order_lines (Map.empty, 0) of
           (line_capacity, total_capacity_units) \<Rightarrow>
             if total_capacity_units \<le> 0 then
               add_event ''CAPACITY_SHORTFALL'' [order_id ord, product_id] st
             else
               (let inv_limit = max_units_from_inventory (bom_items (ps_db st)) stock
                                  (ps_planned_usage st) product_id
                in if inv_limit \<le> 0 then
                     add_event ''INVENTORY_SHORTFALL'' [product_id, order_id ord] st
                   else
                     (let target_qty = target_qty_of (quantity ord) total_capacity_units inv_limit
                      in if target_qty \<le> 0 then
                           add_event ''CAPACITY_SHORTFALL'' [order_id ord] st
                         else
                           (let st1 = (if py_int total_capacity_units < quantity ord
                                       then add_event ''CAPACITY_SHORTFALL'' [order_id ord] st
                                       else st);
                                st2 = (if inv_limit < quantity ord
                                       then add_event ''INVENTORY_SHORTFALL'' [order_id ord] st1
                                       else st1)
                            in case allocate_lines target_qty total_capacity_units line_capacity
                                      order_lines of
                                 (remaining_to_allocate, allocations) \<Rightarrow>
                                   (case create_items_loop run pid ord horizon_start allocations
                                           order_lines (st2, 0) of
                                      (st3, allocated_total) \<Rightarrow>
                                        if allocated_total < quantity ord then
                                          add_event ''CAPACITY_SHORTFALL'' [order_id ord] st3
                                        else st3)))))"

text \<open>The body of the loop over the orders to plan (step 10).\<close>

definition plan_order ::
  "date \<Rightarrow> int \<Rightarrow> string \<Rightarrow> (string \<rightharpoonup> int) \<Rightarrow> Order \<Rightarrow> PlanState \<Rightarrow> PlanState" where
  "plan_order today horizon_days_default run stock ord st =
     (let product_id = o_product_id ord;
          order_lines = filter (\<lambda>l. l_product_id l = product_id) (lines (ps_db st))
      in if order_lines = [] then
           add_event ''NO_LINE_FOR_PRODUCT'' [product_id, order_id ord] st
         else
           (let pid = mk_plan_id run (order_id ord)
            in if list_ex (\<lambda>p. plan_id p = pid) (product_plans (ps_db st)) then st
               else
                 (let plan = \<lparr>plan_id = pid, pp_run_id = run, plan_date = today,
                              pp_status = ''PLANNED''\<rparr>;
                      db1 = (ps_db st)\<lparr>product_plans := product_plans (ps_db st) @ [plan]\<rparr>
                  in allocate_order today horizon_days_default run stock ord order_lines
                       (st\<lparr>ps_db := db1\<rparr>))))"

text \<open>
  The sort of the orders to plan by \<^verbatim>\<open>(priority, dispatch_date, start_date)\<close>. Python
  compares the tuples from the left and raises \<^verbatim>\<open>TypeError\<close> when it has to order a date
  and \<^verbatim>\<open>None\<close>. Which pairs a sort compares depends on the algorithm; the model reports
  the error as soon as the list holds two orders that cannot be compared, and sorts
  stably otherwise.
\<close>

definition order_sort_key :: "Order \<Rightarrow> int \<times> date option \<times> date option" where
  "order_sort_key ord = (priority ord, dispatch_date ord, start_date ord)"

fun py_comparable :: "int \<times> date option \<times> date option \<Rightarrow> int \<times> date option \<times> date option \<Rightarrow> bool" where
  "py_comparable (p1, d1, s1) (p2, d2, s2) =
     (if p1 \<noteq> p2 then True
      else if d1 \<noteq> d2 then d1 \<noteq> None \<and> d2 \<noteq> None
      else if s1 \<noteq> s2 then s1 \<noteq> None \<and> s2 \<noteq> None
      else True)"

definition sort_orders :: "Order list \<Rightarrow> py_error + Order list" where
  "sort_orders os =
     (if list_all (\<lambda>a. list_all (\<lambda>b. py_comparable (order_sort_key a) (order_sort_key b)) os) os
      then Inr (sort_key order_sort_key os)
      else Inl TypeError)"

text \<open>Step 5: one shift profile per line for a new run.\<close>

definition mk_profile :: "string \<Rightarrow> Line \<Rightarrow> LineShiftProfile" where
  "mk_profile run lin =
     \<lparr>lsp_run_id = run, lsp_line_id = line_id lin, lsp_shift_id = ''S1'',
      lsp_product_id = l_product_id lin,
      base_rate_units_per_hour = of_int (daily_capacity lin) / 8,
      base_defect_rate_pct = (if l_product_id lin = ''P-HE'' then 5 / 2 else 3),
      base_uptime_pct = oee_pct lin * 100,
      base_worker_availability_pct = 90,
      base_energy_kwh_per_unit = (if l_product_id lin = ''P-HE'' then 2 / 5 else 7 / 20)\<rparr>"

definition stock_by_material_of :: "InventoryItem list \<Rightarrow> (string \<rightharpoonup> int)" where
  "stock_by_material_of items = map_of (rev (map (\<lambda>i. (i_material_id i, current_stock i)) items))"

text \<open>Step 9: every spike order preempts, in turn, the orders that compete with it.\<close>

definition preempt_all :: "string \<Rightarrow> Order list \<Rightarrow> DB \<times> (string \<rightharpoonup> occupancy) \<Rightarrow> DB \<times> (string \<rightharpoonup> occupancy)" where
  "preempt_all run spike_orders s =
     fold (\<lambda>spike_order s. handle_spike_preemption run spike_order (fst s)) spike_orders s"

text \<open>
  Steps 9 and 10 of \<^verbatim>\<open>plan_all_open_orders\<close> for the open orders that are not yet fully
  allocated: preemption for the spike orders, the sort, and the loop over the orders.
\<close>

definition plan_todo ::
  "date \<Rightarrow> int \<Rightarrow> string \<Rightarrow> (string \<rightharpoonup> int) \<Rightarrow> Order list \<Rightarrow> DB \<times> (string \<rightharpoonup> occupancy)
   \<Rightarrow> py_error + (string \<times> DB)" where
  "plan_todo today horizon_days_default run stock todo s =
     (let spike_orders = filter is_spike todo;
          regular_orders = filter (\<lambda>x. \<not> is_spike x) todo
      in case preempt_all run spike_orders s of
           (db3, occ) \<Rightarrow>
             (case sort_orders (spike_orders @ regular_orders) of
                Inl e \<Rightarrow> Inl e
              | Inr orders_to_plan \<Rightarrow>
                  Inr (run,
                       ps_db (fold (plan_order today horizon_days_default run stock)
                                orders_to_plan
                                \<lparr>ps_db = db3, ps_planned_usage = Map.empty,
                                 ps_line_occupancy = occ\<rparr>))))"

definition add_profiles :: "bool \<Rightarrow> string \<Rightarrow> DB \<Rightarrow> DB" where
  "add_profiles is_new run db =
     (if is_new
      then db\<lparr>line_shift_profiles := line_shift_profiles db @ map (mk_profile run) (lines db)\<rparr>
      else db)"

definition orders_todo :: "DB \<Rightarrow> string \<Rightarrow> Order list" where
  "orders_todo db run =
     (let already_allocated = get_already_allocated_orders db run;
          open_orders = filter (\<lambda>x. status x = ''OPEN'') (orders db)
      in filter (\<lambda>x. order_id x \<notin> set already_allocated) open_orders)"

text \<open>
  \<^verbatim>\<open>plan_all_open_orders\<close>. The pass is one unit of work: an exception leaves the store as
  it was, and the result is the error. The two early returns (no open order, no open
  order left after taking out the fully allocated ones) are the case of an empty list.
\<close>

definition plan_all_open_orders ::
  "date \<Rightarrow> string \<Rightarrow> datetime \<Rightarrow> int \<Rightarrow> DB \<Rightarrow> py_error + (string \<times> DB)" where
  "plan_all_open_orders today new_run_id now horizon_days_default db0 =
     (case get_or_create_plan_run new_run_id now db0 of
        Inl e \<Rightarrow> Inl e
      | Inr (the_run, is_new, db1) \<Rightarrow>
          (let run = run_id the_run;
               stock = stock_by_material_of (inv_items db1);
               db2 = add_profiles is_new run db1;
               line_occupancy = get_line_occupancy db2 run;
               todo = orders_todo db2 run
           in if todo = [] then Inr (run, db2)
              else plan_todo today horizon_days_default run stock todo (db2, line_occupancy)))"

section \<open>Vocabulary of the properties\<close>

text \<open>A purchase order is open while it is not delivered, and due when its ETA is reached.\<close>

definition po_open :: "PurchaseOrder \<Rightarrow> bool" where
  "po_open po = (po_status po \<noteq> ''DELIVERED'')"

definition po_due :: "date \<Rightarrow> PurchaseOrder \<Rightarrow> bool" where
  "po_due today_d po = (po_open po \<and> eta_date po \<le> today_d)"

definition mark_delivered :: "date \<Rightarrow> PurchaseOrder \<Rightarrow> PurchaseOrder" where
  "mark_delivered today_d po = (if po_due today_d po then po\<lparr>po_status := ''DELIVERED''\<rparr> else po)"

text \<open>The quantity of a material that the purchase orders selected by \<open>P\<close> carry.\<close>

definition po_qty_of :: "(PurchaseOrder \<Rightarrow> bool) \<Rightarrow> string \<Rightarrow> PurchaseOrder list \<Rightarrow> int" where
  "po_qty_of P m pos = sum_list (map po_quantity (filter (\<lambda>po. P po \<and> po_material_id po = m) pos))"

text \<open>A store without rows and an inventory module without entries, to build examples from.\<close>

definition empty_db :: DB where
  "empty_db = \<lparr>orders = [], lines = [], bom_items = [], inv_items = [], suppliers = [],
               purchase_orders = [], plan_runs = [], product_plans = [], plan_items = [],
               order_allocations = [], line_shift_profiles = [], events = []\<rparr>"

definition empty_inventory :: InventoryModule where
  "empty_inventory = \<lparr>inventory_state = Map.empty, initial_inventory_by_material = Map.empty,
                      bom_by_product = Map.empty\<rparr>"

text \<open>No entry of the ledger is negative (a missing entry reads as 0).\<close>

definition ledger_nonneg :: "(string \<rightharpoonup> int) \<Rightarrow> bool" where
  "ledger_nonneg st = (\<forall>m. 0 \<le> dict_get st m 0)"

text \<open>
  Consumption: the BOM that the per-line loop of a tick uses for a line, the quantity of a
  material that one unit of a BOM takes, and the quantity that the units completed in a
  tick take. In a well-formed BOM index no entry has a negative quantity; in a well-formed
  table of purchase orders no order has one.
\<close>

definition bom_of :: "(string \<rightharpoonup> string) \<Rightarrow> (string \<rightharpoonup> BOMItem list) \<Rightarrow> string \<Rightarrow> BOMItem list" where
  "bom_of product_by_line bom_idx lin =
     (case product_by_line lin of None \<Rightarrow> [] | Some product_id \<Rightarrow> dict_get bom_idx product_id [])"

definition unit_need :: "BOMItem list \<Rightarrow> string \<Rightarrow> int" where
  "unit_need bom_list m =
     sum_list (map quantity_per_unit (filter (\<lambda>b. b_material_id b = m) bom_list))"

definition tick_need ::
  "(string \<rightharpoonup> string) \<Rightarrow> (string \<rightharpoonup> BOMItem list) \<Rightarrow> (string \<times> int \<times> int) list \<Rightarrow> string
   \<Rightarrow> int" where
  "tick_need product_by_line bom_idx counters m =
     sum_list (map (\<lambda>(lin, old_int, new_int).
                      max 0 (new_int - old_int) * unit_need (bom_of product_by_line bom_idx lin) m)
                 counters)"

definition bom_nonneg :: "(string \<rightharpoonup> BOMItem list) \<Rightarrow> bool" where
  "bom_nonneg bom_idx =
     (\<forall>p bom_list. bom_idx p = Some bom_list \<longrightarrow> (\<forall>b\<in>set bom_list. 0 \<le> quantity_per_unit b))"

definition pos_nonneg :: "PurchaseOrder list \<Rightarrow> bool" where
  "pos_nonneg pos = (\<forall>po\<in>set pos. 0 \<le> po_quantity po)"

text \<open>The quantity that an allocation dictionary gives to the lines of a list.\<close>

definition alloc_sum :: "(string \<rightharpoonup> int) \<Rightarrow> Line list \<Rightarrow> int" where
  "alloc_sum allocations ls = sum_list (map (\<lambda>l. dict_get allocations (line_id l) 0) ls)"

text \<open>The lines of a list with positive capacity: how many they are, and their capacity.\<close>

definition pos_count :: "(string \<rightharpoonup> rat) \<Rightarrow> Line list \<Rightarrow> nat" where
  "pos_count lc ls = length (filter (\<lambda>l. 0 < dict_get lc (line_id l) 0) ls)"

definition pos_total :: "(string \<rightharpoonup> rat) \<Rightarrow> Line list \<Rightarrow> rat" where
  "pos_total lc ls = sum_list (map (\<lambda>l. max 0 (dict_get lc (line_id l) 0)) ls)"

text \<open>
  Replenishment: the requirement of a material that the current stock does not cover,
  whether a material has an open purchase order, and the reading of ``at most one open
  purchase order per material''.
\<close>

definition remaining_requirement_of :: "InventoryModule \<Rightarrow> InventoryItem \<Rightarrow> string \<Rightarrow> int \<Rightarrow> int" where
  "remaining_requirement_of im i mid required =
     max 0 (required - dict_get (inventory_state im) mid
                         (dict_get (initial_inventory_by_material im) mid (current_stock i)))"

definition has_open_po :: "string \<Rightarrow> PurchaseOrder list \<Rightarrow> bool" where
  "has_open_po mid pos = list_ex (\<lambda>po. po_material_id po = mid \<and> po_open po) pos"

definition single_open_po :: "PurchaseOrder list \<Rightarrow> bool" where
  "single_open_po pos = distinct (map po_material_id (filter po_open pos))"

text \<open>
  A required material gets a purchase order when it has an inventory row, a positive
  remaining requirement, no open purchase order and a supplier that can be found.
\<close>

definition po_eligible ::
  "InventoryModule \<Rightarrow> (string \<rightharpoonup> InventoryItem) \<Rightarrow> Supplier list \<Rightarrow> PurchaseOrder list
   \<Rightarrow> string \<times> int \<Rightarrow> bool" where
  "po_eligible im inv_by_id sups pos e =
     (case inv_by_id (fst e) of
        None \<Rightarrow> False
      | Some i \<Rightarrow>
          0 < remaining_requirement_of im i (fst e) (snd e)
          \<and> \<not> has_open_po (fst e) pos
          \<and> find (\<lambda>s. supplier_id s = i_supplier_id i) sups \<noteq> None)"

text \<open>
  The purchase order for such a material: the remaining requirement, due after the lead
  time of the supplier, with status \<^verbatim>\<open>PLACED\<close>.
\<close>

definition po_for ::
  "(date \<Rightarrow> string) \<Rightarrow> date \<Rightarrow> InventoryModule \<Rightarrow> (string \<rightharpoonup> InventoryItem) \<Rightarrow> Supplier list
   \<Rightarrow> string \<times> int \<Rightarrow> PurchaseOrder" where
  "po_for isoformat today_d im inv_by_id sups e =
     (case inv_by_id (fst e) of
        Some i \<Rightarrow>
          (case find (\<lambda>s. supplier_id s = i_supplier_id i) sups of
             Some supplier \<Rightarrow>
               \<lparr>po_id = mk_po_id isoformat (fst e) today_d, po_material_id = fst e,
                po_supplier_id = supplier_id supplier,
                po_quantity = remaining_requirement_of im i (fst e) (snd e),
                po_order_date = today_d, eta_date = today_d + lead_time_days supplier,
                po_status = ''PLACED''\<rparr>))"

text \<open>
  Such a purchase order cannot be written when its ETA is not a calendar date, its
  quantity does not fit the integer column, or its identifier is taken.
\<close>

definition po_blocked ::
  "(date \<Rightarrow> string) \<Rightarrow> date \<Rightarrow> InventoryModule \<Rightarrow> (string \<rightharpoonup> InventoryItem) \<Rightarrow> Supplier list
   \<Rightarrow> PurchaseOrder list \<Rightarrow> string \<times> int \<Rightarrow> bool" where
  "po_blocked isoformat today_d im inv_by_id sups pos e =
     (case inv_by_id (fst e) of
        None \<Rightarrow> False
      | Some i \<Rightarrow>
          (case find (\<lambda>s. supplier_id s = i_supplier_id i) sups of
             None \<Rightarrow> False
           | Some supplier \<Rightarrow>
               isl (py_date_add_days today_d (lead_time_days supplier))
               \<or> \<not> fits_store_int (remaining_requirement_of im i (fst e) (snd e))
               \<or> mk_po_id isoformat (fst e) today_d \<in> set (map po_id pos)))"

text \<open>
  The events that a sweep logs for a required material: \<^verbatim>\<open>SUPPLIER_MISSING\<close> when the
  material has no inventory row, or has a remaining requirement and no open purchase
  order but no supplier that can be found; \<^verbatim>\<open>PO_CREATED\<close> when it gets a purchase order;
  nothing otherwise.
\<close>

definition sweep_events ::
  "(date \<Rightarrow> string) \<Rightarrow> date \<Rightarrow> InventoryModule \<Rightarrow> (string \<rightharpoonup> InventoryItem) \<Rightarrow> Supplier list
   \<Rightarrow> PurchaseOrder list \<Rightarrow> string \<times> int \<Rightarrow> Event list" where
  "sweep_events isoformat today_d im inv_by_id sups pos e =
     (case inv_by_id (fst e) of
        None \<Rightarrow> [Event ''SUPPLIER_MISSING'' [fst e]]
      | Some i \<Rightarrow>
          if remaining_requirement_of im i (fst e) (snd e) \<le> 0 \<or> has_open_po (fst e) pos then []
          else if find (\<lambda>s. supplier_id s = i_supplier_id i) sups = None
          then [Event ''SUPPLIER_MISSING'' [fst e]]
          else [Event ''PO_CREATED'' [mk_po_id isoformat (fst e) today_d, fst e]])"

text \<open>The requirement per material that a sweep works from.\<close>

definition requirements_of :: "InventoryModule \<Rightarrow> DB \<Rightarrow> (string \<times> int) list" where
  "requirements_of im db = required_by_material_of (bom_by_product im) (qty_by_product_of (orders db))"

text \<open>
  Planning: the allocations of an order in a run and their total, whether the order has
  its product plan in the run, and the orders that compete with a spike order.
\<close>

definition allocs_of :: "DB \<Rightarrow> string \<Rightarrow> string \<Rightarrow> OrderAllocation list" where
  "allocs_of db run oid =
     filter (\<lambda>a. oa_run_id a = run \<and> oa_order_id a = oid) (order_allocations db)"

definition order_alloc_total :: "DB \<Rightarrow> string \<Rightarrow> string \<Rightarrow> int" where
  "order_alloc_total db run oid = sum_list (map allocated_qty (allocs_of db run oid))"

definition has_plan :: "DB \<Rightarrow> string \<Rightarrow> string \<Rightarrow> bool" where
  "has_plan db run oid = list_ex (\<lambda>p. plan_id p = mk_plan_id run oid) (product_plans db)"

definition competes :: "Order \<Rightarrow> Order \<Rightarrow> bool" where
  "competes spike_order x =
     (o_product_id x = o_product_id spike_order \<and> \<not> is_spike x
      \<and> (status x = ''OPEN'' \<or> status x = ''ON_HOLD'')
      \<and> order_id x \<noteq> order_id spike_order)"

text \<open>The allocations in a run of the orders with an identifier in a set.\<close>

definition allocs_in :: "DB \<Rightarrow> string \<Rightarrow> string set \<Rightarrow> OrderAllocation set" where
  "allocs_in db run ids =
     {a \<in> set (order_allocations db). oa_run_id a = run \<and> oa_order_id a \<in> ids}"

definition held_ids :: "Order \<Rightarrow> DB \<Rightarrow> string set" where
  "held_ids spike_order db = order_id ` {x \<in> set (orders db). competes spike_order x}"

definition put_on_hold :: "Order \<Rightarrow> Order" where
  "put_on_hold x = x\<lparr>status := ''ON_HOLD''\<rparr>"

text \<open>The shares that lead to rows: the positive entries, in the order of the lines.\<close>

definition positive_allocs :: "(string \<rightharpoonup> int) \<Rightarrow> Line list \<Rightarrow> int list" where
  "positive_allocs allocations ls =
     map (\<lambda>l. dict_get allocations (line_id l) 0)
         (filter (\<lambda>l. 0 < dict_get allocations (line_id l) 0) ls)"

text \<open>
  The total capacity of the lines of an order in its horizon, counting the lines with
  positive capacity, and the quantity that the allocator plans for an order: the target
  quantity, or nothing when capacity, inventory limit or target are not positive.
\<close>

definition total_capacity_of :: "int \<Rightarrow> Line list \<Rightarrow> rat" where
  "total_capacity_of horizon_days ls = sum_list (map (\<lambda>l. max 0 (cap_units_of horizon_days l)) ls)"

definition planned_total ::
  "date \<Rightarrow> int \<Rightarrow> (string \<rightharpoonup> int) \<Rightarrow> Order \<Rightarrow> Line list \<Rightarrow> PlanState \<Rightarrow> int" where
  "planned_total today horizon_days_default stock ord order_lines st =
     (let tcu = total_capacity_of (horizon_days_of today horizon_days_default ord) order_lines;
          inv_limit = max_units_from_inventory (bom_items (ps_db st)) stock (ps_planned_usage st)
                        (o_product_id ord);
          target_qty = target_qty_of (quantity ord) tcu inv_limit
      in if tcu \<le> 0 \<or> inv_limit \<le> 0 \<or> target_qty \<le> 0 then 0 else target_qty)"

text \<open>The tables that planning reads and never writes are the same in two stores.\<close>

definition same_master :: "DB \<Rightarrow> DB \<Rightarrow> bool" where
  "same_master db db' =
     (orders db' = orders db \<and> lines db' = lines db \<and> bom_items db' = bom_items db
      \<and> inv_items db' = inv_items db \<and> suppliers db' = suppliers db
      \<and> purchase_orders db' = purchase_orders db \<and> plan_runs db' = plan_runs db
      \<and> line_shift_profiles db' = line_shift_profiles db)"

text \<open>The rows that a step adds for an order: allocations of the order in the run.\<close>

definition rows_for :: "string \<Rightarrow> string \<Rightarrow> OrderAllocation list \<Rightarrow> bool" where
  "rows_for run oid new = list_all (\<lambda>a. oa_run_id a = run \<and> oa_order_id a = oid) new"

definition shortfall_types :: "string set" where
  "shortfall_types = {''CAPACITY_SHORTFALL'', ''INVENTORY_SHORTFALL''}"

text \<open>
  The inventory limit in the words of the specification, with the two choices of the code
  written out: the units that the free stock of a BOM entry allows, not below zero, the
  smallest of them over the entries of the product with a positive quantity per unit, and
  never more than \<open>10\<^sup>9\<close> (which is also the limit of a product without such entries).
\<close>

definition units_for_material :: "(string \<rightharpoonup> int) \<Rightarrow> (string \<rightharpoonup> int) \<Rightarrow> BOMItem \<Rightarrow> int" where
  "units_for_material stock planned_usage b =
     (dict_get stock (b_material_id b) 0 - dict_get planned_usage (b_material_id b) 0)
       div quantity_per_unit b"


text \<open>
  Well-formed planning data: identifiers are primary keys, quantities, capacities and OEE
  are not negative.
\<close>

definition lines_nonneg :: "Line list \<Rightarrow> bool" where
  "lines_nonneg ls = (\<forall>l\<in>set ls. 0 \<le> daily_capacity l \<and> 0 \<le> oee_pct l)"

definition plan_wf :: "DB \<Rightarrow> bool" where
  "plan_wf db =
     (distinct (map order_id (orders db)) \<and> distinct (map line_id (lines db))
      \<and> lines_nonneg (lines db) \<and> (\<forall>ord\<in>set (orders db). 0 \<le> quantity ord))"

text \<open>
  The total effective capacity of the lines of an order in its horizon, as the sum of
  \<open>dailyCapacity \<times> OEE \<times> horizonDays\<close> over the lines of the product.
\<close>

definition lines_of :: "DB \<Rightarrow> Order \<Rightarrow> Line list" where
  "lines_of db ord = filter (\<lambda>l. l_product_id l = o_product_id ord) (lines db)"




text \<open>An order of a planning pass agrees with its row in the store, up to the status.\<close>

definition row_of :: "DB \<Rightarrow> Order \<Rightarrow> bool" where
  "row_of db ord =
     (\<exists>x\<in>set (orders db). order_id x = order_id ord \<and> quantity x = quantity ord
        \<and> o_product_id x = o_product_id ord \<and> start_date x = start_date ord
        \<and> dispatch_date x = dispatch_date ord \<and> is_spike x = is_spike ord)"

text \<open>
  An order is fully allocated in a run when it has allocations there that add up to at
  least its quantity. The orders that all the spike orders of a list put on hold.
\<close>

definition fully_allocated :: "DB \<Rightarrow> string \<Rightarrow> Order \<Rightarrow> bool" where
  "fully_allocated db run x =
     (allocs_of db run (order_id x) \<noteq> [] \<and> quantity x \<le> order_alloc_total db run (order_id x))"

definition hold_in :: "string set \<Rightarrow> Order \<Rightarrow> Order" where
  "hold_in H x = (if order_id x \<in> H then put_on_hold x else x)"

definition held_all :: "Order list \<Rightarrow> DB \<Rightarrow> string set" where
  "held_all spikes db = (\<Union>s\<in>set spikes. held_ids s db)"

definition is_baseline :: "PlanRun \<Rightarrow> bool" where
  "is_baseline r = (scenario r = ''BASELINE'')"

text \<open>A set of identifiers that names only orders that are open or on hold.\<close>

definition holdable :: "DB \<Rightarrow> string set \<Rightarrow> bool" where
  "holdable db H = (\<forall>x\<in>set (orders db). order_id x \<in> H \<longrightarrow> status x = ''OPEN'' \<or> status x = ''ON_HOLD'')"


text \<open>
  The orders that a planning pass of a run puts on hold: the competitors of the spike
  orders among the open orders that are not yet fully allocated.
\<close>

definition held_by_pass :: "DB \<Rightarrow> string \<Rightarrow> string set" where
  "held_by_pass db run = held_all (filter is_spike (orders_todo db run)) db"
section \<open>Example data\<close>

definition po_example :: "PurchaseOrder list" where
  "po_example =
     [\<lparr>po_id = ''PO-1'', po_material_id = ''M'', po_supplier_id = ''S'', po_quantity = 120,
       po_order_date = 1, eta_date = 5, po_status = ''PLACED''\<rparr>,
      \<lparr>po_id = ''PO-2'', po_material_id = ''M'', po_supplier_id = ''S'', po_quantity = 7,
       po_order_date = 1, eta_date = 9, po_status = ''PLACED''\<rparr>]"

definition bom_example :: BOMItem where
  "bom_example = \<lparr>b_product_id = ''P'', b_material_id = ''M'', quantity_per_unit = 2\<rparr>"

text \<open>Four lines of one product, each with half a unit of capacity per day.\<close>

definition half_line :: "string \<Rightarrow> Line" where
  "half_line n = \<lparr>line_id = n, l_product_id = ''P'', daily_capacity = 1, oee_pct = 1 / 2\<rparr>"

definition four_lines :: "Line list" where
  "four_lines = [half_line ''A'', half_line ''B'', half_line ''C'', half_line ''D'']"



text \<open>
  Replenishment: one order of 60 units of product P, which needs 2 units of material M per
  unit; no stock of M; the supplier of M has a lead time of 5 days. In the second store
  the supplier row is missing.
\<close>

definition order_example :: Order where
  "order_example = \<lparr>order_id = ''ORD-1'', o_product_id = ''P'', quantity = 60,
                     start_date = Some 10, dispatch_date = Some 19, status = ''OPEN'',
                     priority = 5, is_spike = False\<rparr>"

definition inventory_example :: InventoryModule where
  "inventory_example = \<lparr>inventory_state = [''M'' \<mapsto> 0],
                         initial_inventory_by_material = [''M'' \<mapsto> 0],
                         bom_by_product = [''P'' \<mapsto> [bom_example]]\<rparr>"

definition supply_db :: DB where
  "supply_db = empty_db\<lparr>orders := [order_example],
       inv_items := [\<lparr>i_material_id = ''M'', i_supplier_id = ''SUP01'', current_stock = 0\<rparr>],
       suppliers := [\<lparr>supplier_id = ''SUP01'', lead_time_days = 5\<rparr>]\<rparr>"

definition no_supplier_db :: DB where
  "no_supplier_db = supply_db\<lparr>suppliers := []\<rparr>"

definition iso_example :: "date \<Rightarrow> string" where
  "iso_example d = (if d = 10 then ''2025-12-03'' else ''2025-12-04'')"

definition restocked_db :: DB where
  "restocked_db = projr (check_and_place_purchase_orders iso_example 10 inventory_example supply_db)"

definition po_summary :: "DB \<Rightarrow> (string \<times> int \<times> date \<times> string) list" where
  "po_summary db = map (\<lambda>po. (po_material_id po, po_quantity po, eta_date po, po_status po))
                       (purchase_orders db)"

text \<open>
  Preemption: a regular order B of 400 units with one allocation in the run, and a spike
  order S for the same product.
\<close>

definition order_b :: Order where
  "order_b = \<lparr>order_id = ''ORD-B'', o_product_id = ''P'', quantity = 400,
               start_date = Some 10, dispatch_date = Some 19, status = ''OPEN'',
               priority = 5, is_spike = False\<rparr>"

definition order_s :: Order where
  "order_s = \<lparr>order_id = ''ORD-S'', o_product_id = ''P'', quantity = 500,
               start_date = Some 10, dispatch_date = Some 12, status = ''OPEN'',
               priority = 1, is_spike = True\<rparr>"

definition spike_db :: DB where
  "spike_db = empty_db\<lparr>orders := [order_b, order_s],
       plan_runs := [\<lparr>run_id = ''RUN-1'', scenario = ''BASELINE'', created_at = 9\<rparr>],
       product_plans := [\<lparr>plan_id = mk_plan_id ''RUN-1'' ''ORD-B'', pp_run_id = ''RUN-1'',
                          plan_date = 10, pp_status = ''PLANNED''\<rparr>],
       plan_items := [\<lparr>item_id = 1, pi_plan_id = mk_plan_id ''RUN-1'' ''ORD-B'', pi_line_id = ''L1'',
                       pi_product_id = ''P'', planned_qty = 400, start_ts = 10, end_ts = 15\<rparr>],
       order_allocations := [\<lparr>oa_run_id = ''RUN-1'', oa_plan_id = mk_plan_id ''RUN-1'' ''ORD-B'',
                              oa_order_id = ''ORD-B'', oa_line_id = ''L1'', oa_product_id = ''P'',
                              allocated_qty = 400, plan_item_id = 1\<rparr>]\<rparr>"



text \<open>
  Planning: a store with the order of 60 units, the four small lines, the BOM entry and
  stock of material M for ten units, before the first planning pass.
\<close>

definition plan_db :: DB where
  "plan_db = empty_db\<lparr>orders := [order_example], lines := four_lines, bom_items := [bom_example],
       inv_items := [\<lparr>i_material_id = ''M'', i_supplier_id = ''SUP01'', current_stock = 20\<rparr>]\<rparr>"

definition planned_db :: DB where
  "planned_db = snd (projr (plan_all_open_orders 10 ''RUN-1'' 9 9 plan_db))"

section \<open>Properties of the line occupancy tracker\<close>

lemma scan_max_eq:
  "fold (\<lambda>x m. if m < occ_end x then occ_end x else m) rest m0 = Max (insert m0 (occ_end ` set rest))"
proof (induction rest arbitrary: m0)
  case Nil
  then show ?case by simp
next
  case (Cons x rest)
  let ?S = "occ_end ` set rest"
  have ge: "occ_end x \<le> Max (insert (occ_end x) ?S)" by (rule Max_ge) auto
  have ge0: "m0 \<le> Max (insert m0 ?S)" by (rule Max_ge) auto
  show ?case
  proof (cases "m0 < occ_end x")
    case True
    with ge have le: "m0 \<le> Max (insert (occ_end x) ?S)" by linarith
    have "Max (insert m0 (insert (occ_end x) ?S)) = max m0 (Max (insert (occ_end x) ?S))"
      by (rule Max_insert) auto
    also have "\<dots> = Max (insert (occ_end x) ?S)" using le by (rule max_absorb2)
    finally show ?thesis using True Cons.IH [of "occ_end x"] by simp
  next
    case False
    with ge0 have le: "occ_end x \<le> Max (insert m0 ?S)" by linarith
    have "Max (insert (occ_end x) (insert m0 ?S)) = max (occ_end x) (Max (insert m0 ?S))"
      by (rule Max_insert) auto
    also have "\<dots> = Max (insert m0 ?S)" using le by (rule max_absorb2)
    finally show ?thesis using False Cons.IH [of m0] by (simp add: insert_commute)
  qed
qed

lemma later_of_two: "(x::rat) = (if M \<le> d then d else M) \<Longrightarrow> d \<le> x"
  by (cases "M \<le> d") simp_all

lemma latest_end_eq:
  "get_line_available_start (occ # rest) d =
     (if Max (occ_end ` set (occ # rest)) \<le> d then d else Max (occ_end ` set (occ # rest)))"
  unfolding get_line_available_start_def list.case Let_def scan_max_eq by simp

text \<open>
  C9. The next available start of a line is the desired start when the line has no booked
  interval or the desired start is not before the latest end time among its intervals;
  otherwise it is that latest end time (intervals are appended after the latest one, gaps
  are not filled). The returned start is never before the desired start.
\<close>

theorem C9_next_available_start:
  "get_line_available_start occs desired =
     (if occs = [] \<or> Max (occ_end ` set occs) \<le> desired then desired
      else Max (occ_end ` set occs))
   \<and> desired \<le> get_line_available_start occs desired"
proof (cases occs)
  case Nil
  then show ?thesis by (simp add: get_line_available_start_def)
next
  case (Cons occ rest)
  have ne: "occ # rest \<noteq> []" by simp
  show ?thesis
    unfolding Cons using latest_end_eq [of occ rest desired]
      later_of_two [OF latest_end_eq [of occ rest desired]] ne by presburger
qed

theorem C9_next_available_start_witness:
  "get_line_available_start [(0, 5, 1), (1, 3, 2)] 2 = 5
   \<and> get_line_available_start [(0, 5, 1), (1, 3, 2)] 7 = 7
   \<and> get_line_available_start [] 2 = 2"
  using C9_next_available_start [of "[(0, 5, 1), (1, 3, 2)]" 2]
        C9_next_available_start [of "[(0, 5, 1), (1, 3, 2)]" 7]
        C9_next_available_start [of "[]" 2]
  by (simp add: occ_end_def)

section \<open>Delivery of purchase orders\<close>

lemma deliver_loop_spec:
  "\<exists>st' evs'. deliver_loop today_d pos st evs = (map (mark_delivered today_d) pos, st', evs')
      \<and> (\<forall>m. dict_get st' m 0 = dict_get st m 0 + po_qty_of (po_due today_d) m pos)"
proof (induction pos arbitrary: st evs)
  case Nil
  then show ?case by (simp add: po_qty_of_def)
next
  case (Cons po pos)
  show ?case
  proof (cases "po_due today_d po")
    case True
    let ?st = "st(po_material_id po \<mapsto> dict_get st (po_material_id po) 0 + po_quantity po)"
    let ?evs = "log_event evs ''PO_DELIVERED'' [po_id po, po_material_id po]"
    from Cons.IH [of ?st ?evs] obtain st' evs' where
      run: "deliver_loop today_d pos ?st ?evs = (map (mark_delivered today_d) pos, st', evs')"
      and led: "\<And>m. dict_get st' m 0 = dict_get ?st m 0 + po_qty_of (po_due today_d) m pos"
      by blast
    have upd: "\<And>m. dict_get ?st m 0
        = dict_get st m 0 + (if po_material_id po = m then po_quantity po else 0)"
      by (simp add: dict_get_def)
    from True have cond: "po_status po \<noteq> ''DELIVERED'' \<and> eta_date po \<le> today_d"
      by (simp add: po_due_def po_open_def)
    have "deliver_loop today_d (po # pos) st evs
            = (map (mark_delivered today_d) (po # pos), st', evs')"
      using cond run True by (simp add: Let_def mark_delivered_def)
    moreover have "\<forall>m. dict_get st' m 0 = dict_get st m 0 + po_qty_of (po_due today_d) m (po # pos)"
      using led upd True by (simp add: po_qty_of_def)
    ultimately show ?thesis by blast
  next
    case False
    from Cons.IH [of st evs] obtain st' evs' where
      run: "deliver_loop today_d pos st evs = (map (mark_delivered today_d) pos, st', evs')"
      and led: "\<And>m. dict_get st' m 0 = dict_get st m 0 + po_qty_of (po_due today_d) m pos"
      by blast
    from False have cond: "\<not> (po_status po \<noteq> ''DELIVERED'' \<and> eta_date po \<le> today_d)"
      by (simp add: po_due_def po_open_def)
    have "deliver_loop today_d (po # pos) st evs
            = (map (mark_delivered today_d) (po # pos), st', evs')"
      using cond run False by (auto simp add: mark_delivered_def)
    moreover have "\<forall>m. dict_get st' m 0 = dict_get st m 0 + po_qty_of (po_due today_d) m (po # pos)"
      using led False by (simp add: po_qty_of_def)
    ultimately show ?thesis by blast
  qed
qed

lemma sweep_rows:
  "purchase_orders (fst (update_purchase_orders today_d (db, im)))
     = map (mark_delivered today_d) (purchase_orders db)"
  using deliver_loop_spec [of today_d "purchase_orders db" "inventory_state im" "events db"]
  by (auto simp: update_purchase_orders_def)

lemma sweep_ledger:
  "dict_get (inventory_state (snd (update_purchase_orders today_d (db, im)))) m 0
     = dict_get (inventory_state im) m 0 + po_qty_of (po_due today_d) m (purchase_orders db)"
  using deliver_loop_spec [of today_d "purchase_orders db" "inventory_state im" "events db"]
  by (auto simp: update_purchase_orders_def)

lemma due_after_delivery:
  "po_due d2 (mark_delivered d1 po) = (po_open po \<and> \<not> eta_date po \<le> d1 \<and> eta_date po \<le> d2)"
  by (auto simp: mark_delivered_def po_due_def po_open_def)

lemma qty_after_delivery:
  "po_qty_of (po_due d2) m (map (mark_delivered d1) pos)
     = po_qty_of (\<lambda>po. po_open po \<and> \<not> eta_date po \<le> d1 \<and> eta_date po \<le> d2) m pos"
proof (induction pos)
  case Nil
  then show ?case by (simp add: po_qty_of_def)
next
  case (Cons po pos)
  have mat: "po_material_id (mark_delivered d1 po) = po_material_id po"
    and qty: "po_quantity (mark_delivered d1 po) = po_quantity po"
    by (simp_all add: mark_delivered_def)
  from Cons.IH show ?case
    unfolding po_qty_of_def by (simp add: due_after_delivery mat qty)
qed

text \<open>
  C8. The delivery sweep marks every open purchase order whose ETA is reached as
  \<^verbatim>\<open>DELIVERED\<close> and leaves the other rows as they are; the ledger entry of every material
  grows by exactly the quantities of the orders delivered for it. Any later sweep
  delivers only orders that were open and not yet due in the first one, so an order
  marked \<^verbatim>\<open>DELIVERED\<close> never reaches the ledger a second time.
\<close>

theorem C8_delivery_exactly_once:
  "purchase_orders (fst (update_purchase_orders today_d (db, im)))
     = map (mark_delivered today_d) (purchase_orders db)
   \<and> dict_get (inventory_state (snd (update_purchase_orders today_d (db, im)))) m 0
     = dict_get (inventory_state im) m 0 + po_qty_of (po_due today_d) m (purchase_orders db)
   \<and> dict_get (inventory_state (snd (update_purchase_orders later_d
                                        (update_purchase_orders today_d (db, im))))) m 0
     = dict_get (inventory_state (snd (update_purchase_orders today_d (db, im)))) m 0
       + po_qty_of (\<lambda>po. po_open po \<and> \<not> eta_date po \<le> today_d \<and> eta_date po \<le> later_d) m
           (purchase_orders db)"
proof -
  obtain db' im' where s: "update_purchase_orders today_d (db, im) = (db', im')"
    by (cases "update_purchase_orders today_d (db, im)")
  have rows: "purchase_orders db' = map (mark_delivered today_d) (purchase_orders db)"
    using sweep_rows [of today_d db im] s by simp
  have "dict_get (inventory_state (snd (update_purchase_orders later_d (db', im')))) m 0
          = dict_get (inventory_state im') m 0 + po_qty_of (po_due later_d) m (purchase_orders db')"
    by (rule sweep_ledger)
  then have again: "dict_get (inventory_state (snd (update_purchase_orders later_d (db', im')))) m 0
          = dict_get (inventory_state im') m 0
            + po_qty_of (\<lambda>po. po_open po \<and> \<not> eta_date po \<le> today_d \<and> eta_date po \<le> later_d) m
                (purchase_orders db)"
    by (simp add: rows qty_after_delivery)
  show ?thesis
    using sweep_rows [of today_d db im] sweep_ledger [of today_d db im m] again s by simp
qed

theorem C8_delivery_exactly_once_witness:
  "dict_get (inventory_state (snd (update_purchase_orders 5
       (empty_db\<lparr>purchase_orders := po_example\<rparr>,
        empty_inventory\<lparr>inventory_state := [''M'' \<mapsto> 30]\<rparr>)))) ''M'' 0 = 150
   \<and> dict_get (inventory_state (snd (update_purchase_orders 6 (update_purchase_orders 5
       (empty_db\<lparr>purchase_orders := po_example\<rparr>,
        empty_inventory\<lparr>inventory_state := [''M'' \<mapsto> 30]\<rparr>))))) ''M'' 0 = 150
   \<and> map po_status (purchase_orders (fst (update_purchase_orders 5
       (empty_db\<lparr>purchase_orders := po_example\<rparr>,
        empty_inventory\<lparr>inventory_state := [''M'' \<mapsto> 30]\<rparr>)))) = [''DELIVERED'', ''PLACED'']"
  using C8_delivery_exactly_once [of 5 "empty_db\<lparr>purchase_orders := po_example\<rparr>"
          "empty_inventory\<lparr>inventory_state := [''M'' \<mapsto> 30]\<rparr>" "''M''" 6]
  by (simp add: po_example_def empty_db_def empty_inventory_def po_qty_of_def po_due_def
        po_open_def mark_delivered_def dict_get_def)

section \<open>The split of a target quantity over the lines\<close>

subsection \<open>Rounding\<close>

lemma py_round_lower: "x - 1 / 2 \<le> of_int (py_round x)"
proof -
  have fl: "x < of_int \<lfloor>x\<rfloor> + 1" by linarith
  show ?thesis
  proof (cases "x - of_int \<lfloor>x\<rfloor> \<le> 1 / 2")
    case True
    have "\<lfloor>x\<rfloor> \<le> py_round x" by (simp add: py_round_def Let_def)
    then have "(of_int \<lfloor>x\<rfloor> :: rat) \<le> of_int (py_round x)" by (simp only: of_int_le_iff)
    with True show ?thesis by linarith
  next
    case False
    then have "py_round x = \<lfloor>x\<rfloor> + 1" by (simp add: py_round_def Let_def)
    with fl show ?thesis by simp
  qed
qed


lemma py_round_nonneg: "0 \<le> x \<Longrightarrow> 0 \<le> py_round x"
proof -
  assume "0 \<le> x"
  then have "0 \<le> \<lfloor>x\<rfloor>" by simp
  then show ?thesis by (auto simp: py_round_def Let_def)
qed

subsection \<open>Sums of an allocation dictionary\<close>

lemma alloc_sum_other:
  "i \<notin> line_id ` set ls \<Longrightarrow> alloc_sum (a(i \<mapsto> v)) ls = alloc_sum a ls"
  by (induction ls) (auto simp: alloc_sum_def dict_get_def)

lemma alloc_sum_add:
  "distinct (map line_id ls) \<Longrightarrow> l \<in> set ls \<Longrightarrow>
   alloc_sum (a(line_id l \<mapsto> dict_get a (line_id l) 0 + q)) ls = alloc_sum a ls + q"
proof (induction ls)
  case Nil
  then show ?case by simp
next
  case (Cons x ls)
  show ?case
  proof (cases "line_id x = line_id l")
    case True
    with Cons.prems have "line_id l \<notin> line_id ` set ls" by auto
    then have "alloc_sum (a(line_id l \<mapsto> dict_get a (line_id l) 0 + q)) ls = alloc_sum a ls"
      by (rule alloc_sum_other)
    with True show ?thesis by (simp add: alloc_sum_def dict_get_def)
  next
    case False
    with Cons.prems have "l \<in> set ls" and "distinct (map line_id ls)" by auto
    with Cons.IH have "alloc_sum (a(line_id l \<mapsto> dict_get a (line_id l) 0 + q)) ls = alloc_sum a ls + q"
      by blast
    with False show ?thesis by (simp add: alloc_sum_def dict_get_def)
  qed
qed

subsection \<open>The proportional pass\<close>

lemma distribute_loop_sum:
  assumes "distinct (map line_id all)"
  shows "set ls \<subseteq> set all \<Longrightarrow> distribute_loop t tcu lc ls (r, a) = (r', a') \<Longrightarrow>
         alloc_sum a' all + r' = alloc_sum a all + r \<and> (0 \<le> r \<longrightarrow> 0 \<le> r')"
proof (induction ls arbitrary: r a)
  case Nil
  then show ?case by simp
next
  case (Cons l ls)
  let ?c = "dict_get lc (line_id l) 0"
  show ?case
  proof (cases "?c \<le> 0 \<or> r \<le> 0")
    case True
    with Cons.prems have "distribute_loop t tcu lc ls (r, a) = (r', a')" by auto
    with Cons.IH [of r a] Cons.prems(1) show ?thesis by simp
  next
    case False
    define q where "q = max 0 (min (py_round (of_int t * (?c / tcu))) r)"
    let ?a = "a(line_id l \<mapsto> dict_get a (line_id l) 0 + q)"
    from False Cons.prems(2) have run: "distribute_loop t tcu lc ls (r - q, ?a) = (r', a')"
      by (simp add: q_def Let_def)
    from Cons.prems(1) have "l \<in> set all" by simp
    with assms have "alloc_sum ?a all = alloc_sum a all + q" by (rule alloc_sum_add)
    moreover from False have "0 \<le> q" and "q \<le> r" by (simp_all add: q_def)
    moreover from Cons.prems(1) have sub: "set ls \<subseteq> set all" by simp
    from Cons.IH [of "r - q" ?a, OF sub run]
    have "alloc_sum a' all + r' = alloc_sum ?a all + (r - q) \<and> (0 \<le> r - q \<longrightarrow> 0 \<le> r')" .
    ultimately show ?thesis by linarith
  qed
qed

text \<open>
  The leftover of the proportional pass: either nothing, or at most what the shares of
  the lines seen so far leave, plus one half for each of them.
\<close>

lemma distribute_loop_leftover:
  assumes "0 < t" and "0 < tcu"
  shows "distribute_loop t tcu lc ls (r, a) = (r', a') \<Longrightarrow>
         r' \<le> 0 \<or> of_int r' \<le> of_int r - of_int t * pos_total lc ls / tcu
                              + of_nat (pos_count lc ls) / 2"
proof (induction ls arbitrary: r a)
  case Nil
  then show ?case by (simp add: pos_total_def pos_count_def)
next
  case (Cons l ls)
  let ?c = "dict_get lc (line_id l) 0"
  show ?case
  proof (cases "?c \<le> 0")
    case True
    with Cons.prems have "distribute_loop t tcu lc ls (r, a) = (r', a')" by auto
    from Cons.IH [OF this] True show ?thesis
      by (simp add: pos_total_def pos_count_def max_def)
  next
    case pos: False
    show ?thesis
    proof (cases "r \<le> 0")
      case True
      with Cons.prems have run: "distribute_loop t tcu lc ls (r, a) = (r', a')" by auto
      have "r' \<le> r"
      proof -
        have "\<And>ls r a r' a'. r \<le> 0 \<Longrightarrow> distribute_loop t tcu lc ls (r, a) = (r', a') \<Longrightarrow> r' = r"
        proof -
          fix ls :: "Line list" and r a r' a'
          show "r \<le> 0 \<Longrightarrow> distribute_loop t tcu lc ls (r, a) = (r', a') \<Longrightarrow> r' = r"
            by (induction ls) auto
        qed
        from this [OF True run] show ?thesis by simp
      qed
      with True show ?thesis by simp
    next
      case False
      define x where "x = of_int t * (?c / tcu)"
      define q where "q = max 0 (min (py_round x) r)"
      let ?a = "a(line_id l \<mapsto> dict_get a (line_id l) 0 + q)"
      from pos False Cons.prems have run: "distribute_loop t tcu lc ls (r - q, ?a) = (r', a')"
        by (simp add: q_def x_def Let_def)
      have xpos: "0 \<le> x" using assms pos by (simp add: x_def)
      then have rn: "0 \<le> py_round x" by (rule py_round_nonneg)
      have ptot: "pos_total lc (l # ls) = ?c + pos_total lc ls"
        using pos by (simp add: pos_total_def max_def)
      have cnt: "pos_count lc (l # ls) = Suc (pos_count lc ls)"
        using pos by (simp add: pos_count_def)
      have split: "of_int t * pos_total lc (l # ls) / tcu = x + of_int t * pos_total lc ls / tcu"
        by (simp add: ptot x_def algebra_simps add_divide_distrib)
      from Cons.IH [of "r - q" ?a, OF run]
      have ih: "r' \<le> 0 \<or> of_int r' \<le> of_int (r - q) - of_int t * pos_total lc ls / tcu
                              + of_nat (pos_count lc ls) / 2" .
      show ?thesis
      proof (cases "py_round x \<le> r")
        case True
        with rn have "q = py_round x" by (simp add: q_def)
        moreover have "x - 1 / 2 \<le> of_int (py_round x)" by (rule py_round_lower)
        ultimately have "(of_int (r - q) :: rat) \<le> of_int r - x + 1 / 2" by simp
        with ih show ?thesis unfolding split cnt by (auto simp: field_simps)
      next
        case False
        with rn have "q = r" using \<open>\<not> r \<le> 0\<close> by (simp add: q_def)
        with run have run0: "distribute_loop t tcu lc ls (0, ?a) = (r', a')" by simp
        have "\<And>ls a. distribute_loop t tcu lc ls (0, a) = (r', a') \<Longrightarrow> r' = 0"
        proof -
          fix ls :: "Line list" and a
          show "distribute_loop t tcu lc ls (0, a) = (r', a') \<Longrightarrow> r' = 0"
            by (induction ls) auto
        qed
        from this [OF run0] show ?thesis by simp
      qed
    qed
  qed
qed


subsection \<open>The capacity of the lines\<close>

lemma capacity_loop_spec:
  "distinct (map line_id ls) \<Longrightarrow> capacity_loop hz ls (lc0, t0) = (lc, tcu) \<Longrightarrow>
     tcu = t0 + sum_list (map (\<lambda>l. max 0 (cap_units_of hz l)) ls)
     \<and> (\<forall>i. i \<notin> line_id ` set ls \<longrightarrow> lc i = lc0 i)
     \<and> (\<forall>l\<in>set ls. lc (line_id l)
            = (if 0 < cap_units_of hz l then Some (cap_units_of hz l) else lc0 (line_id l)))"
proof (induction ls arbitrary: lc0 t0)
  case Nil
  then show ?case by simp
next
  case (Cons x ls)
  from Cons.prems(1) have d: "distinct (map line_id ls)" and nx: "line_id x \<notin> line_id ` set ls"
    by auto
  show ?case
  proof (cases "cap_units_of hz x \<le> 0")
    case True
    with Cons.prems(2) have run: "capacity_loop hz ls (lc0, t0) = (lc, tcu)" by simp
    from Cons.IH [OF d run] True nx show ?thesis by (auto simp: max_def)
  next
    case False
    let ?lc = "lc0(line_id x \<mapsto> cap_units_of hz x)"
    from False Cons.prems(2)
    have run: "capacity_loop hz ls (?lc, t0 + cap_units_of hz x) = (lc, tcu)"
      by (simp add: Let_def)
    from Cons.IH [of ?lc "t0 + cap_units_of hz x", OF d run]
    have ih: "tcu = t0 + cap_units_of hz x + sum_list (map (\<lambda>l. max 0 (cap_units_of hz l)) ls)"
      "\<And>i. i \<notin> line_id ` set ls \<Longrightarrow> lc i = ?lc i"
      "\<And>l. l \<in> set ls \<Longrightarrow> lc (line_id l)
            = (if 0 < cap_units_of hz l then Some (cap_units_of hz l) else ?lc (line_id l))"
      by blast+
    have "tcu = t0 + sum_list (map (\<lambda>l. max 0 (cap_units_of hz l)) (x # ls))"
      using ih(1) False by (simp add: max_def)
    moreover have "\<forall>i. i \<notin> line_id ` set (x # ls) \<longrightarrow> lc i = lc0 i"
      using ih(2) by simp
    moreover have "\<forall>l\<in>set (x # ls). lc (line_id l)
            = (if 0 < cap_units_of hz l then Some (cap_units_of hz l) else lc0 (line_id l))"
    proof
      fix l assume mem: "l \<in> set (x # ls)"
      show "lc (line_id l)
            = (if 0 < cap_units_of hz l then Some (cap_units_of hz l) else lc0 (line_id l))"
      proof (cases "l = x")
        case True
        with ih(2) [OF nx] False show ?thesis by simp
      next
        case False
        with mem have in_ls: "l \<in> set ls" by simp
        then have "line_id l \<in> line_id ` set ls" by (rule imageI)
        with nx have "line_id l \<noteq> line_id x" by metis
        with ih(3) [OF in_ls] show ?thesis by simp
      qed
    qed
    ultimately show ?thesis by blast
  qed
qed

lemma capacity_of_line:
  assumes "distinct (map line_id ls)" and "capacity_loop hz ls (Map.empty, 0) = (lc, tcu)"
    and "l \<in> set ls"
  shows "dict_get lc (line_id l) 0 = max 0 (cap_units_of hz l)"
  using capacity_loop_spec [OF assms(1,2)] assms(3) by (auto simp: dict_get_def max_def)

lemma capacity_total:
  assumes "distinct (map line_id ls)" and "capacity_loop hz ls (Map.empty, 0) = (lc, tcu)"
  shows "pos_total lc ls = tcu"
proof -
  have eq: "map (\<lambda>l. max 0 (dict_get lc (line_id l) 0)) ls = map (\<lambda>l. max 0 (cap_units_of hz l)) ls"
    by (rule map_cong [OF refl]) (simp add: capacity_of_line [OF assms])
  have "tcu = 0 + sum_list (map (\<lambda>l. max 0 (cap_units_of hz l)) ls)"
    using capacity_loop_spec [OF assms] by blast
  then show ?thesis unfolding pos_total_def eq by simp
qed

subsection \<open>The pass over the leftover\<close>

lemma topup_loop_sum:
  assumes "distinct (map line_id all)"
  shows "set ls \<subseteq> set all \<Longrightarrow> topup_loop ls (r, a) = (r', a') \<Longrightarrow>
         alloc_sum a' all + r' = alloc_sum a all + r
         \<and> (0 \<le> r \<longrightarrow> r' = max 0 (r - int (length ls)))"
proof (induction ls arbitrary: r a)
  case Nil
  then show ?case by simp
next
  case (Cons l ls)
  show ?case
  proof (cases "r \<le> 0")
    case True
    with Cons.prems show ?thesis by auto
  next
    case False
    let ?a = "a(line_id l \<mapsto> dict_get a (line_id l) 0 + 1)"
    from False Cons.prems(2) have run: "topup_loop ls (r - 1, ?a) = (r', a')" by simp
    from Cons.prems(1) have sub: "set ls \<subseteq> set all" and mem: "l \<in> set all" by simp_all
    from assms mem have "alloc_sum ?a all = alloc_sum a all + 1" by (rule alloc_sum_add)
    moreover from Cons.IH [of "r - 1" ?a, OF sub run]
    have "alloc_sum a' all + r' = alloc_sum ?a all + (r - 1)
          \<and> (0 \<le> r - 1 \<longrightarrow> r' = max 0 (r - 1 - int (length ls)))" .
    ultimately show ?thesis using False by auto
  qed
qed

lemma sorted_desc_set: "set (sorted_desc k xs) = set xs"
  by (simp add: sorted_desc_def)

lemma sorted_desc_length: "length (sorted_desc k xs) = length xs"
  by (simp add: sorted_desc_def)


subsection \<open>The whole split\<close>

lemma allocate_lines_sum:
  assumes "distinct (map line_id ls)" and "allocate_lines t tcu lc ls = (r, a)" and "0 \<le> t"
  shows "alloc_sum a ls + r = t \<and> 0 \<le> r"
proof -
  obtain r1 a1 where d: "distribute_loop t tcu lc ls (t, Map.empty) = (r1, a1)"
    by (cases "distribute_loop t tcu lc ls (t, Map.empty)")
  have e: "alloc_sum Map.empty ls = 0"
    by (induction ls) (simp_all add: alloc_sum_def dict_get_def)
  from distribute_loop_sum [OF assms(1) subset_refl d] assms(3) e
  have s1: "alloc_sum a1 ls + r1 = t" and p1: "0 \<le> r1" by simp_all
  show ?thesis
  proof (cases "0 < r1")
    case True
    with d assms(2)
    have tu: "topup_loop (sorted_desc (\<lambda>l. dict_get lc (line_id l) 0) ls) (r1, a1) = (r, a)"
      by (simp add: allocate_lines_def)
    have "set (sorted_desc (\<lambda>l. dict_get lc (line_id l) 0) ls) \<subseteq> set ls"
      by (simp add: sorted_desc_set)
    from topup_loop_sum [OF assms(1) this tu] s1 p1 show ?thesis by simp
  next
    case False
    with d assms(2) have "r = r1" "a = a1" by (simp_all add: allocate_lines_def)
    with s1 p1 show ?thesis by simp
  qed
qed

lemma leftover_bound:
  assumes "distinct (map line_id ls)" and "capacity_loop hz ls (Map.empty, 0) = (lc, tcu)"
    and "0 < tcu" and "0 < t" and "distribute_loop t tcu lc ls (t, Map.empty) = (r1, a1)"
  shows "0 \<le> r1 \<and> 2 * r1 \<le> int (length ls) \<and> alloc_sum a1 ls = t - r1"
proof -
  have e: "alloc_sum Map.empty ls = 0"
    by (induction ls) (simp_all add: alloc_sum_def dict_get_def)
  from distribute_loop_sum [OF assms(1) subset_refl assms(5)] assms(4) e
  have s1: "alloc_sum a1 ls + r1 = t" and p1: "0 \<le> r1" by simp_all
  have "pos_total lc ls = tcu" using assms(1,2) by (rule capacity_total)
  with distribute_loop_leftover [OF assms(4,3,5)] assms(3)
  have "r1 \<le> 0 \<or> (of_int r1 :: rat) \<le> of_nat (pos_count lc ls) / 2" by simp
  moreover have "pos_count lc ls \<le> length ls" by (simp add: pos_count_def)
  then have "(of_nat (pos_count lc ls) :: rat) \<le> of_nat (length ls)" by (simp only: of_nat_le_iff)
  ultimately have "r1 \<le> 0 \<or> (of_int (2 * r1) :: rat) \<le> of_int (int (length ls))"
    by auto
  then have "r1 \<le> 0 \<or> 2 * r1 \<le> int (length ls)" by (simp only: of_int_le_iff)
  with s1 p1 show ?thesis by auto
qed

lemma allocate_lines_exact:
  assumes "distinct (map line_id ls)" and "capacity_loop hz ls (Map.empty, 0) = (lc, tcu)"
    and "0 < tcu" and "0 < t" and "allocate_lines t tcu lc ls = (r, a)"
  shows "r = 0 \<and> alloc_sum a ls = t"
proof -
  obtain r1 a1 where d: "distribute_loop t tcu lc ls (t, Map.empty) = (r1, a1)"
    by (cases "distribute_loop t tcu lc ls (t, Map.empty)")
  from leftover_bound [OF assms(1-4) d]
  have b: "0 \<le> r1" "2 * r1 \<le> int (length ls)" by simp_all
  from allocate_lines_sum [OF assms(1,5)] assms(4)
  have s: "alloc_sum a ls + r = t" by simp
  have "r = 0"
  proof (cases "0 < r1")
    case True
    with d assms(5)
    have tu: "topup_loop (sorted_desc (\<lambda>l. dict_get lc (line_id l) 0) ls) (r1, a1) = (r, a)"
      by (simp add: allocate_lines_def)
    have "set (sorted_desc (\<lambda>l. dict_get lc (line_id l) 0) ls) \<subseteq> set ls"
      by (simp add: sorted_desc_set)
    from topup_loop_sum [OF assms(1) this tu] b(1)
    have "r = max 0 (r1 - int (length ls))" by (simp add: sorted_desc_length)
    with b(2) True show ?thesis by simp
  next
    case False
    with d assms(5) b(1) show ?thesis by (simp add: allocate_lines_def)
  qed
  with s show ?thesis by simp
qed



section \<open>What a single line receives\<close>









section \<open>Placement of purchase orders\<close>

lemma mk_po_id_inj: "mk_po_id fmt m1 d = mk_po_id fmt m2 d \<Longrightarrow> m1 = m2"
  by (simp add: mk_po_id_def)

lemma has_open_po_append:
  "has_open_po mid (pos @ [po]) = (has_open_po mid pos \<or> (po_material_id po = mid \<and> po_open po))"
  by (auto simp: has_open_po_def list_ex_iff)

lemma po_for_fields:
  assumes "po_eligible im ibi sups pos e"
  shows "po_material_id (po_for fmt d im ibi sups e) = fst e"
    and "po_open (po_for fmt d im ibi sups e)"
    and "po_id (po_for fmt d im ibi sups e) = mk_po_id fmt (fst e) d"
  using assms
  by (auto simp: po_eligible_def po_for_def po_open_def split: option.splits)

lemma eligible_append_other:
  "po_material_id po \<noteq> fst e \<Longrightarrow>
   po_eligible im ibi sups (pos @ [po]) e = po_eligible im ibi sups pos e"
  by (auto simp: po_eligible_def has_open_po_append split: option.splits)

lemma blocked_append_other:
  "po_id po \<noteq> mk_po_id fmt (fst e) d \<Longrightarrow>
   po_blocked fmt d im ibi sups (pos @ [po]) e = po_blocked fmt d im ibi sups pos e"
  by (auto simp: po_blocked_def split: option.splits)

lemma events_append_other:
  "po_material_id po \<noteq> fst e \<Longrightarrow>
   sweep_events fmt d im ibi sups (pos @ [po]) e = sweep_events fmt d im ibi sups pos e"
  by (simp add: sweep_events_def has_open_po_append split: option.splits)

lemma place_loop_step_skip:
  assumes "\<not> po_eligible im ibi sups pos (mid, required)"
  shows "place_loop fmt d im ibi sups ((mid, required) # rest) pos evs
           = place_loop fmt d im ibi sups rest pos
               (evs @ sweep_events fmt d im ibi sups pos (mid, required))"
proof (cases "ibi mid")
  case None
  then show ?thesis by (simp add: sweep_events_def log_event_def)
next
  case (Some i)
  show ?thesis
  proof (cases "remaining_requirement_of im i mid required \<le> 0")
    case True
    with Some show ?thesis
      by (auto simp: remaining_requirement_of_def sweep_events_def Let_def)
  next
    case r: False
    show ?thesis
    proof (cases "has_open_po mid pos")
      case True
      with Some r show ?thesis
        by (auto simp: remaining_requirement_of_def has_open_po_def po_open_def sweep_events_def
            Let_def)
    next
      case False
      with assms Some r have "find (\<lambda>s. supplier_id s = i_supplier_id i) sups = None"
        by (simp add: po_eligible_def)
      with Some r False show ?thesis
        by (auto simp: remaining_requirement_of_def has_open_po_def po_open_def sweep_events_def
            log_event_def Let_def)
    qed
  qed
qed

lemma eligibleE:
  assumes "po_eligible im ibi sups pos (mid, required)"
  obtains i supplier where "ibi mid = Some i"
    and "\<not> max 0 (required - dict_get (inventory_state im) mid
                       (dict_get (initial_inventory_by_material im) mid (current_stock i))) \<le> 0"
    and "\<not> list_ex (\<lambda>po. po_material_id po = mid \<and> po_status po \<noteq> ''DELIVERED'') pos"
    and "find (\<lambda>s. supplier_id s = i_supplier_id i) sups = Some supplier"
    and "0 < remaining_requirement_of im i mid required" and "\<not> has_open_po mid pos"
  using assms
  by (auto simp: po_eligible_def remaining_requirement_of_def has_open_po_def po_open_def
      split: option.splits)

lemma place_loop_step_place:
  assumes "po_eligible im ibi sups pos (mid, required)"
    and "\<not> po_blocked fmt d im ibi sups pos (mid, required)"
  shows "place_loop fmt d im ibi sups ((mid, required) # rest) pos evs
           = place_loop fmt d im ibi sups rest
               (pos @ [po_for fmt d im ibi sups (mid, required)])
               (evs @ sweep_events fmt d im ibi sups pos (mid, required))"
proof -
  from assms(1) obtain i supplier where i: "ibi mid = Some i"
    and r: "\<not> max 0 (required - dict_get (inventory_state im) mid
                       (dict_get (initial_inventory_by_material im) mid (current_stock i))) \<le> 0"
    and o: "\<not> list_ex (\<lambda>po. po_material_id po = mid \<and> po_status po \<noteq> ''DELIVERED'') pos"
    and s: "find (\<lambda>s. supplier_id s = i_supplier_id i) sups = Some supplier"
    and r': "0 < remaining_requirement_of im i mid required" and o': "\<not> has_open_po mid pos"
    by (rule eligibleE)
  from assms(2) i s
  have eta: "py_date_add_days d (lead_time_days supplier) = Inr (d + lead_time_days supplier)"
    and fits: "fits_store_int (max 0 (required - dict_get (inventory_state im) mid
                       (dict_get (initial_inventory_by_material im) mid (current_stock i))))"
    and fresh: "mk_po_id fmt mid d \<notin> set (map po_id pos)"
    by (auto simp: po_blocked_def py_date_add_days_def remaining_requirement_of_def
        split: if_splits)
  have ev: "sweep_events fmt d im ibi sups pos (mid, required)
              = [Event ''PO_CREATED'' [mk_po_id fmt mid d, mid]]"
    using i r' o' s by (simp add: sweep_events_def)
  show ?thesis
    using i r o s eta fits fresh
    by (simp add: Let_def po_for_def remaining_requirement_of_def ev log_event_def)
qed

lemma place_loop_step_blocked:
  assumes "po_eligible im ibi sups pos (mid, required)"
    and "po_blocked fmt d im ibi sups pos (mid, required)"
  shows "isl (place_loop fmt d im ibi sups ((mid, required) # rest) pos evs)"
proof -
  from assms(1) obtain i supplier where i: "ibi mid = Some i"
    and r: "\<not> max 0 (required - dict_get (inventory_state im) mid
                       (dict_get (initial_inventory_by_material im) mid (current_stock i))) \<le> 0"
    and o: "\<not> list_ex (\<lambda>po. po_material_id po = mid \<and> po_status po \<noteq> ''DELIVERED'') pos"
    and s: "find (\<lambda>s. supplier_id s = i_supplier_id i) sups = Some supplier"
    by (rule eligibleE)
  from assms(2) i s
  have b: "isl (py_date_add_days d (lead_time_days supplier))
           \<or> \<not> fits_store_int (max 0 (required - dict_get (inventory_state im) mid
                       (dict_get (initial_inventory_by_material im) mid (current_stock i))))
           \<or> mk_po_id fmt mid d \<in> set (map po_id pos)"
    by (simp add: po_blocked_def remaining_requirement_of_def)
  show ?thesis
  proof (cases "py_date_add_days d (lead_time_days supplier)")
    case (Inl e)
    with i r o s show ?thesis by (simp add: Let_def)
  next
    case (Inr eta)
    with b i r o s show ?thesis by (auto simp: Let_def)
  qed
qed

lemma place_loop_spec:
  "distinct (map fst req) \<Longrightarrow>
   \<forall>e\<in>set req. po_eligible im ibi sups pos e \<longrightarrow> \<not> po_blocked fmt d im ibi sups pos e \<Longrightarrow>
   place_loop fmt d im ibi sups req pos evs
     = Inr (pos @ map (po_for fmt d im ibi sups) (filter (po_eligible im ibi sups pos) req),
            evs @ concat (map (sweep_events fmt d im ibi sups pos) req))"
proof (induction req arbitrary: pos evs)
  case Nil
  then show ?case by simp
next
  case (Cons e req)
  obtain mid required where e: "e = (mid, required)" by (cases e)
  from Cons.prems(1) e have dist: "distinct (map fst req)" and fresh_mid: "mid \<notin> fst ` set req"
    by auto
  show ?case
  proof (cases "po_eligible im ibi sups pos e")
    case False
    with e have step: "place_loop fmt d im ibi sups (e # req) pos evs
        = place_loop fmt d im ibi sups req pos (evs @ sweep_events fmt d im ibi sups pos e)"
      using place_loop_step_skip [of im ibi sups pos mid required fmt d req evs] by simp
    from Cons.prems(2)
    have "\<forall>e\<in>set req. po_eligible im ibi sups pos e \<longrightarrow> \<not> po_blocked fmt d im ibi sups pos e"
      by simp
    from Cons.IH [OF dist this, of "evs @ sweep_events fmt d im ibi sups pos e"] step False
    show ?thesis by simp
  next
    case True
    let ?po = "po_for fmt d im ibi sups e"
    from Cons.prems(2) True have nb: "\<not> po_blocked fmt d im ibi sups pos e" by simp
    with True e have step: "place_loop fmt d im ibi sups (e # req) pos evs
        = place_loop fmt d im ibi sups req (pos @ [?po]) (evs @ sweep_events fmt d im ibi sups pos e)"
      using place_loop_step_place [of im ibi sups pos mid required fmt d req evs] by simp
    have mat: "po_material_id ?po = mid" and pid: "po_id ?po = mk_po_id fmt mid d"
      using po_for_fields [OF True, of fmt d] e by simp_all
    have other: "po_material_id ?po \<noteq> fst x" "po_id ?po \<noteq> mk_po_id fmt (fst x) d"
      if "x \<in> set req" for x
    proof -
      from that fresh_mid have ne: "fst x \<noteq> mid" by force
      with mat show "po_material_id ?po \<noteq> fst x" by simp
      from ne pid mk_po_id_inj [of fmt "fst x" d mid]
      show "po_id ?po \<noteq> mk_po_id fmt (fst x) d" by auto
    qed
    have ok': "\<forall>x\<in>set req. po_eligible im ibi sups (pos @ [?po]) x
                    \<longrightarrow> \<not> po_blocked fmt d im ibi sups (pos @ [?po]) x"
      using Cons.prems(2) other
      by (simp add: eligible_append_other blocked_append_other)
    have same: "filter (po_eligible im ibi sups (pos @ [?po])) req
                  = filter (po_eligible im ibi sups pos) req"
      by (rule filter_cong [OF refl]) (simp add: eligible_append_other other)
    have same_ev: "map (sweep_events fmt d im ibi sups (pos @ [?po])) req
                  = map (sweep_events fmt d im ibi sups pos) req"
      by (rule map_cong [OF refl]) (simp add: events_append_other other)
    from Cons.IH [OF dist ok', of "evs @ sweep_events fmt d im ibi sups pos e"] step True
    show ?thesis by (simp add: same same_ev)
  qed
qed

lemma place_loop_fails:
  "distinct (map fst req) \<Longrightarrow>
   \<exists>e\<in>set req. po_eligible im ibi sups pos e \<and> po_blocked fmt d im ibi sups pos e \<Longrightarrow>
   isl (place_loop fmt d im ibi sups req pos evs)"
proof (induction req arbitrary: pos evs)
  case Nil
  then show ?case by simp
next
  case (Cons e req)
  obtain mid required where e: "e = (mid, required)" by (cases e)
  from Cons.prems(1) e have dist: "distinct (map fst req)" and fresh_mid: "mid \<notin> fst ` set req"
    by auto
  show ?case
  proof (cases "po_eligible im ibi sups pos e")
    case False
    with e have step: "place_loop fmt d im ibi sups (e # req) pos evs
        = place_loop fmt d im ibi sups req pos (evs @ sweep_events fmt d im ibi sups pos e)"
      using place_loop_step_skip [of im ibi sups pos mid required fmt d req evs] by simp
    from Cons.prems(2) False
    have "\<exists>x\<in>set req. po_eligible im ibi sups pos x \<and> po_blocked fmt d im ibi sups pos x"
      by auto
    from Cons.IH [OF dist this] step show ?thesis by simp
  next
    case True
    show ?thesis
    proof (cases "po_blocked fmt d im ibi sups pos e")
      case b: True
      with True e show ?thesis
        using place_loop_step_blocked [of im ibi sups pos mid required fmt d req evs] by simp
    next
      case nb: False
      let ?po = "po_for fmt d im ibi sups e"
      from True nb e have step: "place_loop fmt d im ibi sups (e # req) pos evs
          = place_loop fmt d im ibi sups req (pos @ [?po])
              (evs @ sweep_events fmt d im ibi sups pos e)"
        using place_loop_step_place [of im ibi sups pos mid required fmt d req evs] by simp
      have mat: "po_material_id ?po = mid" and pid: "po_id ?po = mk_po_id fmt mid d"
        using po_for_fields [OF True, of fmt d] e by simp_all
      from Cons.prems(2) nb obtain x where x: "x \<in> set req" "po_eligible im ibi sups pos x"
        "po_blocked fmt d im ibi sups pos x"
        by auto
      from x(1) fresh_mid have ne: "fst x \<noteq> mid" by force
      with mat have "po_eligible im ibi sups (pos @ [?po]) x"
        using x(2) by (simp add: eligible_append_other)
      moreover from ne pid mk_po_id_inj [of fmt "fst x" d mid]
      have "po_id ?po \<noteq> mk_po_id fmt (fst x) d" by auto
      then have "po_blocked fmt d im ibi sups (pos @ [?po]) x"
        using x(3) by (simp add: blocked_append_other)
      ultimately
      have "\<exists>x\<in>set req. po_eligible im ibi sups (pos @ [?po]) x
              \<and> po_blocked fmt d im ibi sups (pos @ [?po]) x"
        using x(1) by blast
      from Cons.IH [OF dist this] step show ?thesis by simp
    qed
  qed
qed

lemma update_keys_distinct:
  "distinct (map fst al) \<Longrightarrow> distinct (map fst (AList.update k v al))"
  by (simp add: distinct_update)

lemma bom_fold_distinct:
  "distinct (map fst req) \<Longrightarrow>
   distinct (map fst (fold (\<lambda>b req. AList.update (b_material_id b)
                              (alist_get req (b_material_id b) 0 + quantity_per_unit b * t) req) bs req))"
  by (induction bs arbitrary: req) (simp_all add: update_keys_distinct)

lemma required_fold_distinct:
  "distinct (map fst acc) \<Longrightarrow>
   distinct (map fst (fold (\<lambda>(product_id, total_qty) req.
             fold (\<lambda>b req. AList.update (b_material_id b)
                              (alist_get req (b_material_id b) 0 + quantity_per_unit b * total_qty) req)
                  (dict_get all_bom product_id []) req) qbp acc))"
proof (induction qbp arbitrary: acc)
  case Nil
  then show ?case by simp
next
  case (Cons p qbp)
  obtain pid t where p: "p = (pid, t)" by (cases p)
  from Cons.prems have "distinct (map fst (fold (\<lambda>b req. AList.update (b_material_id b)
                          (alist_get req (b_material_id b) 0 + quantity_per_unit b * t) req)
              (dict_get all_bom pid []) acc))"
    by (rule bom_fold_distinct)
  from Cons.IH [OF this] p show ?case by simp
qed

lemma requirements_distinct: "distinct (map fst (requirements_of im db))"
  unfolding requirements_of_def required_by_material_of_def
  by (rule required_fold_distinct) simp

lemma sweep_unfold:
  "check_and_place_purchase_orders fmt d im db =
     (case place_loop fmt d im (inv_by_id_of (inv_items db) (map fst (requirements_of im db)))
             (suppliers db) (requirements_of im db) (purchase_orders db) (events db) of
        Inl e \<Rightarrow> Inl e
      | Inr (pos', evs') \<Rightarrow>
          if requirements_of im db = [] then Inr db
          else Inr (db\<lparr>purchase_orders := pos', events := evs'\<rparr>))"
proof -
  have e0: "orders db = [] \<Longrightarrow> requirements_of im db = []"
    by (simp add: requirements_of_def required_by_material_of_def qty_by_product_of_def)
  have e1: "qty_by_product_of (orders db) = [] \<Longrightarrow> requirements_of im db = []"
    by (simp add: requirements_of_def required_by_material_of_def)
  show ?thesis
  proof (cases "requirements_of im db = []")
    case True
    then show ?thesis
      by (auto simp: check_and_place_purchase_orders_def Let_def requirements_of_def)
  next
    case False
    with e0 e1 have "orders db \<noteq> []" "qty_by_product_of (orders db) \<noteq> []" by blast+
    with False show ?thesis
      by (auto simp: check_and_place_purchase_orders_def Let_def requirements_of_def
          split: sum.splits)
  qed
qed

lemma sweep_places:
  assumes "\<forall>e\<in>set (requirements_of im db).
             po_eligible im (inv_by_id_of (inv_items db) (map fst (requirements_of im db)))
               (suppliers db) (purchase_orders db) e
             \<longrightarrow> \<not> po_blocked fmt d im (inv_by_id_of (inv_items db) (map fst (requirements_of im db)))
                     (suppliers db) (purchase_orders db) e"
  shows "\<exists>db'. check_and_place_purchase_orders fmt d im db = Inr db'
           \<and> purchase_orders db'
               = purchase_orders db
                 @ map (po_for fmt d im (inv_by_id_of (inv_items db) (map fst (requirements_of im db)))
                          (suppliers db))
                     (filter (po_eligible im
                                (inv_by_id_of (inv_items db) (map fst (requirements_of im db)))
                                (suppliers db) (purchase_orders db))
                        (requirements_of im db))
           \<and> events db'
               = events db
                 @ concat (map (sweep_events fmt d im
                                  (inv_by_id_of (inv_items db) (map fst (requirements_of im db)))
                                  (suppliers db) (purchase_orders db))
                             (requirements_of im db))
           \<and> orders db' = orders db \<and> inv_items db' = inv_items db \<and> suppliers db' = suppliers db"
proof -
  let ?req = "requirements_of im db"
  let ?ibi = "inv_by_id_of (inv_items db) (map fst ?req)"
  note pl = place_loop_spec [OF requirements_distinct assms, of "events db"]
  show ?thesis
  proof (cases "?req = []")
    case True
    with pl show ?thesis by (simp add: sweep_unfold)
  next
    case False
    with pl show ?thesis by (simp add: sweep_unfold)
  qed
qed

lemma sweep_fails:
  assumes "\<exists>e\<in>set (requirements_of im db).
             po_eligible im (inv_by_id_of (inv_items db) (map fst (requirements_of im db)))
               (suppliers db) (purchase_orders db) e
             \<and> po_blocked fmt d im (inv_by_id_of (inv_items db) (map fst (requirements_of im db)))
                 (suppliers db) (purchase_orders db) e"
  shows "isl (check_and_place_purchase_orders fmt d im db)"
proof -
  from place_loop_fails [OF requirements_distinct assms, of "events db"]
  show ?thesis by (auto simp: sweep_unfold isl_def)
qed

lemma sweep_result:
  assumes "check_and_place_purchase_orders fmt d im db = Inr db'"
  shows "purchase_orders db'
           = purchase_orders db
             @ map (po_for fmt d im (inv_by_id_of (inv_items db) (map fst (requirements_of im db)))
                      (suppliers db))
                 (filter (po_eligible im
                            (inv_by_id_of (inv_items db) (map fst (requirements_of im db)))
                            (suppliers db) (purchase_orders db))
                    (requirements_of im db))"
proof (cases "\<exists>e\<in>set (requirements_of im db).
             po_eligible im (inv_by_id_of (inv_items db) (map fst (requirements_of im db)))
               (suppliers db) (purchase_orders db) e
             \<and> po_blocked fmt d im (inv_by_id_of (inv_items db) (map fst (requirements_of im db)))
                 (suppliers db) (purchase_orders db) e")
  case True
  from sweep_fails [OF this] assms show ?thesis by simp
next
  case False
  then have "\<forall>e\<in>set (requirements_of im db).
             po_eligible im (inv_by_id_of (inv_items db) (map fst (requirements_of im db)))
               (suppliers db) (purchase_orders db) e
             \<longrightarrow> \<not> po_blocked fmt d im (inv_by_id_of (inv_items db) (map fst (requirements_of im db)))
                     (suppliers db) (purchase_orders db) e"
    by blast
  from sweep_places [OF this] assms show ?thesis by auto
qed

lemma po_for_quantity:
  assumes "po_eligible im ibi sups pos e"
  shows "0 < po_quantity (po_for fmt d im ibi sups e)"
  using assms by (auto simp: po_eligible_def po_for_def split: option.splits)

lemma sweep_noop:
  assumes "\<forall>e\<in>set (requirements_of im db).
             \<not> po_eligible im (inv_by_id_of (inv_items db) (map fst (requirements_of im db)))
                 (suppliers db) (purchase_orders db) e"
  shows "\<exists>db'. check_and_place_purchase_orders fmt d im db = Inr db'
           \<and> purchase_orders db' = purchase_orders db"
proof -
  from assms have e: "filter (po_eligible im
                                (inv_by_id_of (inv_items db) (map fst (requirements_of im db)))
                                (suppliers db) (purchase_orders db))
                        (requirements_of im db) = []"
    by (simp add: filter_empty_conv)
  from assms sweep_places [of im db fmt d] show ?thesis unfolding e by auto
qed

lemma not_eligible_after:
  assumes "e \<in> set req"
  shows "\<not> po_eligible im ibi sups
            (pos @ map (po_for fmt d im ibi sups) (filter (po_eligible im ibi sups pos) req)) e"
proof (cases "po_eligible im ibi sups pos e")
  case True
  let ?po = "po_for fmt d im ibi sups e"
  from True assms have "?po \<in> set (map (po_for fmt d im ibi sups) (filter (po_eligible im ibi sups pos) req))"
    by simp
  moreover have "po_material_id ?po = fst e" "po_open ?po"
    using po_for_fields [OF True] by simp_all
  ultimately have "has_open_po (fst e)
            (pos @ map (po_for fmt d im ibi sups) (filter (po_eligible im ibi sups pos) req))"
    unfolding has_open_po_def list_ex_iff by (metis Un_iff set_append)
  then show ?thesis by (simp add: po_eligible_def split: option.splits)
next
  case False
  have "has_open_po (fst e) pos \<Longrightarrow> has_open_po (fst e)
            (pos @ map (po_for fmt d im ibi sups) (filter (po_eligible im ibi sups pos) req))"
    by (auto simp: has_open_po_def list_ex_iff)
  with False show ?thesis by (auto simp: po_eligible_def split: option.splits)
qed

lemma single_open_po_kept:
  assumes "single_open_po pos" and "distinct (map fst req)"
  shows "single_open_po
           (pos @ map (po_for fmt d im ibi sups) (filter (po_eligible im ibi sups pos) req))"
proof -
  let ?new = "map (po_for fmt d im ibi sups) (filter (po_eligible im ibi sups pos) req)"
  have open_new: "filter po_open ?new = ?new"
    by (rule filter_True) (auto simp: po_for_fields)
  have mats: "map po_material_id ?new = map fst (filter (po_eligible im ibi sups pos) req)"
    unfolding map_map by (rule map_cong [OF refl]) (simp add: po_for_fields(1) [where pos = pos])
  have d_new: "distinct (map po_material_id ?new)"
    unfolding mats using assms(2) by (simp add: distinct_map_filter)
  have disj: "set (map po_material_id (filter po_open pos)) \<inter> set (map po_material_id ?new) = {}"
  proof (rule ccontr)
    assume "\<not> ?thesis"
    then obtain m where m1: "m \<in> set (map po_material_id (filter po_open pos))"
      and m2: "m \<in> set (map fst (filter (po_eligible im ibi sups pos) req))"
      unfolding mats by blast
    from m1 have "has_open_po m pos" by (auto simp: has_open_po_def list_ex_iff)
    moreover from m2 obtain e where "po_eligible im ibi sups pos e" "fst e = m" by auto
    then have "\<not> has_open_po m pos" by (auto simp: po_eligible_def split: option.splits)
    ultimately show False by blast
  qed
  from assms(1) d_new disj open_new show ?thesis
    by (simp add: single_open_po_def)
qed

text \<open>
  C7 (as the code has it). A sweep that completes adds one purchase order for every
  required material that has an inventory row, a positive remaining requirement
  (requirement less current stock), no open purchase order and a supplier that can be
  found, and for no other material: the new rows are the orders of these materials, in
  the order of the requirements, whose materials are distinct. Such an order carries the
  remaining requirement, is due after the supplier's lead time and has status
  \<^verbatim>\<open>PLACED\<close>. The sweep logs \<^verbatim>\<open>PO_CREATED\<close> for each of them, \<^verbatim>\<open>SUPPLIER_MISSING\<close> for a
  material without inventory row and for a material with a remaining requirement and no
  open purchase order whose supplier cannot be found, and nothing for the others. It
  keeps ``at most one open purchase order per material'', and running it again on its
  result completes and places nothing. The sweep raises an exception exactly when one of
  the purchase orders to place cannot be written.
\<close>

theorem C7_one_po_per_shortfall:
  assumes "req = requirements_of im db"
    and "ibi = inv_by_id_of (inv_items db) (map fst req)"
  shows "(isl (check_and_place_purchase_orders fmt today_d im db)
            = (\<exists>e\<in>set req. po_eligible im ibi (suppliers db) (purchase_orders db) e
                 \<and> po_blocked fmt today_d im ibi (suppliers db) (purchase_orders db) e))
       \<and> (\<forall>db'. check_and_place_purchase_orders fmt today_d im db = Inr db' \<longrightarrow>
            purchase_orders db'
              = purchase_orders db
                @ map (po_for fmt today_d im ibi (suppliers db))
                    (filter (po_eligible im ibi (suppliers db) (purchase_orders db)) req)
            \<and> events db'
                = events db
                  @ concat (map (sweep_events fmt today_d im ibi (suppliers db) (purchase_orders db))
                              req)
            \<and> (single_open_po (purchase_orders db) \<longrightarrow> single_open_po (purchase_orders db'))
            \<and> (\<exists>db''. check_and_place_purchase_orders fmt today_d im db' = Inr db''
                   \<and> purchase_orders db'' = purchase_orders db'))
       \<and> distinct (map fst req)
       \<and> (\<forall>e\<in>set req. \<forall>i s. ibi (fst e) = Some i
              \<and> find (\<lambda>s. supplier_id s = i_supplier_id i) (suppliers db) = Some s \<longrightarrow>
              po_material_id (po_for fmt today_d im ibi (suppliers db) e) = fst e
              \<and> po_quantity (po_for fmt today_d im ibi (suppliers db) e)
                  = max 0 (snd e - dict_get (inventory_state im) (fst e)
                                     (dict_get (initial_inventory_by_material im) (fst e)
                                        (current_stock i)))
              \<and> eta_date (po_for fmt today_d im ibi (suppliers db) e) = today_d + lead_time_days s
              \<and> po_status (po_for fmt today_d im ibi (suppliers db) e) = ''PLACED'')"
proof -
  let ?sweep = "check_and_place_purchase_orders fmt today_d im db"
  let ?el = "po_eligible im ibi (suppliers db) (purchase_orders db)"
  let ?bl = "po_blocked fmt today_d im ibi (suppliers db) (purchase_orders db)"
  have dist: "distinct (map fst req)" unfolding assms(1) by (rule requirements_distinct)
  have fields: "\<forall>e\<in>set req. \<forall>i s. ibi (fst e) = Some i
              \<and> find (\<lambda>s. supplier_id s = i_supplier_id i) (suppliers db) = Some s \<longrightarrow>
              po_material_id (po_for fmt today_d im ibi (suppliers db) e) = fst e
              \<and> po_quantity (po_for fmt today_d im ibi (suppliers db) e)
                  = max 0 (snd e - dict_get (inventory_state im) (fst e)
                                     (dict_get (initial_inventory_by_material im) (fst e)
                                        (current_stock i)))
              \<and> eta_date (po_for fmt today_d im ibi (suppliers db) e) = today_d + lead_time_days s
              \<and> po_status (po_for fmt today_d im ibi (suppliers db) e) = ''PLACED''"
    by (auto simp: po_for_def remaining_requirement_of_def)
  have fails: "isl ?sweep" if "\<exists>e\<in>set req. ?el e \<and> ?bl e"
    using that sweep_fails [of im db fmt today_d] unfolding assms by blast
  have works: "\<exists>db'. ?sweep = Inr db'
           \<and> purchase_orders db'
               = purchase_orders db @ map (po_for fmt today_d im ibi (suppliers db)) (filter ?el req)
           \<and> events db'
               = events db
                 @ concat (map (sweep_events fmt today_d im ibi (suppliers db) (purchase_orders db))
                             req)
           \<and> orders db' = orders db \<and> inv_items db' = inv_items db \<and> suppliers db' = suppliers db"
    if "\<not> (\<exists>e\<in>set req. ?el e \<and> ?bl e)"
    using that sweep_places [of im db fmt today_d] unfolding assms by blast
  have iff: "isl ?sweep = (\<exists>e\<in>set req. ?el e \<and> ?bl e)"
    using fails works by (cases "\<exists>e\<in>set req. ?el e \<and> ?bl e") auto
  have rest: "purchase_orders db'
              = purchase_orders db @ map (po_for fmt today_d im ibi (suppliers db)) (filter ?el req)
            \<and> events db'
                = events db
                  @ concat (map (sweep_events fmt today_d im ibi (suppliers db) (purchase_orders db))
                              req)
            \<and> (single_open_po (purchase_orders db) \<longrightarrow> single_open_po (purchase_orders db'))
            \<and> (\<exists>db''. check_and_place_purchase_orders fmt today_d im db' = Inr db''
                   \<and> purchase_orders db'' = purchase_orders db')"
    if run: "?sweep = Inr db'" for db'
  proof -
    from run iff have "\<not> (\<exists>e\<in>set req. ?el e \<and> ?bl e)" by auto
    from works [OF this] run
    have pos': "purchase_orders db'
           = purchase_orders db @ map (po_for fmt today_d im ibi (suppliers db)) (filter ?el req)"
      and evs': "events db'
                = events db
                  @ concat (map (sweep_events fmt today_d im ibi (suppliers db) (purchase_orders db))
                              req)"
      and same: "orders db' = orders db" "inv_items db' = inv_items db"
        "suppliers db' = suppliers db"
      by auto
    have keep: "single_open_po (purchase_orders db) \<longrightarrow> single_open_po (purchase_orders db')"
      unfolding pos' using dist by (auto intro: single_open_po_kept)
    have req': "requirements_of im db' = req" by (simp add: requirements_of_def same assms(1))
    have "\<forall>e\<in>set (requirements_of im db').
             \<not> po_eligible im (inv_by_id_of (inv_items db') (map fst (requirements_of im db')))
                 (suppliers db') (purchase_orders db') e"
      unfolding req' same pos' assms(2) [symmetric] using not_eligible_after by blast
    from sweep_noop [OF this, of fmt today_d]
    have again: "\<exists>db''. check_and_place_purchase_orders fmt today_d im db' = Inr db''
              \<and> purchase_orders db'' = purchase_orders db'" .
    from pos' evs' keep again show ?thesis by blast
  qed
  from iff rest dist fields show ?thesis by blast
qed

lemma restocked_db_run:
  "check_and_place_purchase_orders iso_example 10 inventory_example supply_db = Inr restocked_db"
  by code_simp

lemma restocked_db_rows:
  "purchase_orders supply_db
     @ map (po_for iso_example 10 inventory_example
              (inv_by_id_of (inv_items supply_db)
                 (map fst (requirements_of inventory_example supply_db)))
              (suppliers supply_db))
         (filter (po_eligible inventory_example
                    (inv_by_id_of (inv_items supply_db)
                       (map fst (requirements_of inventory_example supply_db)))
                    (suppliers supply_db) (purchase_orders supply_db))
            (requirements_of inventory_example supply_db))
     = [\<lparr>po_id = ''PO-M-2025-12-03'', po_material_id = ''M'', po_supplier_id = ''SUP01'',
         po_quantity = 120, po_order_date = 10, eta_date = 15, po_status = ''PLACED''\<rparr>]"
  "events supply_db
     @ concat (map (sweep_events iso_example 10 inventory_example
                      (inv_by_id_of (inv_items supply_db)
                         (map fst (requirements_of inventory_example supply_db)))
                      (suppliers supply_db) (purchase_orders supply_db))
                 (requirements_of inventory_example supply_db))
     = [Event ''PO_CREATED'' [''PO-M-2025-12-03'', ''M'']]"
  by code_simp+

theorem C7_one_po_per_shortfall_witness:
  "check_and_place_purchase_orders iso_example 10 inventory_example supply_db = Inr restocked_db
   \<and> purchase_orders restocked_db
       = [\<lparr>po_id = ''PO-M-2025-12-03'', po_material_id = ''M'', po_supplier_id = ''SUP01'',
           po_quantity = 120, po_order_date = 10, eta_date = 15, po_status = ''PLACED''\<rparr>]
   \<and> events restocked_db = [Event ''PO_CREATED'' [''PO-M-2025-12-03'', ''M'']]
   \<and> (\<exists>db''. check_and_place_purchase_orders iso_example 10 inventory_example restocked_db = Inr db''
          \<and> purchase_orders db'' = purchase_orders restocked_db)"
proof -
  note t = C7_one_po_per_shortfall [OF refl refl, of iso_example 10 inventory_example supply_db,
      THEN conjunct2, THEN conjunct1, rule_format, OF restocked_db_run]
  from t have "purchase_orders restocked_db
       = [\<lparr>po_id = ''PO-M-2025-12-03'', po_material_id = ''M'', po_supplier_id = ''SUP01'',
           po_quantity = 120, po_order_date = 10, eta_date = 15, po_status = ''PLACED''\<rparr>]"
    unfolding restocked_db_rows by (rule conjunct1)
  moreover from t have "events restocked_db = [Event ''PO_CREATED'' [''PO-M-2025-12-03'', ''M'']]"
    unfolding restocked_db_rows by blast
  moreover from t
  have "\<exists>db''. check_and_place_purchase_orders iso_example 10 inventory_example restocked_db = Inr db''
          \<and> purchase_orders db'' = purchase_orders restocked_db"
    by blast
  ultimately show ?thesis using restocked_db_run by blast
qed

text \<open>
  A material with a remaining requirement of 120 and no open purchase order, whose
  inventory row names a supplier that does not exist: the sweep completes and places
  nothing.
\<close>

theorem C7_missing_supplier_no_po:
  "map_sum id po_summary
     (check_and_place_purchase_orders iso_example 10 inventory_example no_supplier_db) = Inr []
   \<and> requirements_of inventory_example no_supplier_db = [(''M'', 120)]
   \<and> remaining_requirement_of inventory_example
        \<lparr>i_material_id = ''M'', i_supplier_id = ''SUP01'', current_stock = 0\<rparr> ''M'' 120 = 120
   \<and> \<not> has_open_po ''M'' (purchase_orders no_supplier_db)"
  by code_simp

section \<open>Spike preemption\<close>

lemma mk_plan_id_inj: "mk_plan_id run a = mk_plan_id run b \<Longrightarrow> a = b"
  by (simp add: mk_plan_id_def)

text \<open>What the loop over the orders to hold does to the store, for any list of orders.\<close>

lemma preempt_order_tables:
  "order_allocations (preempt_order run p sid h db)
     = filter (\<lambda>a. \<not> (oa_run_id a = run \<and> oa_order_id a = order_id h)) (order_allocations db)"
  "product_plans (preempt_order run p sid h db)
     = filter (\<lambda>pl. plan_id pl \<noteq> mk_plan_id run (order_id h)) (product_plans db)"
  "plan_items (preempt_order run p sid h db)
     = filter (\<lambda>item. item_id item \<notin> plan_item_id ` allocs_in db run {order_id h}) (plan_items db)"
  "orders (preempt_order run p sid h db)
     = map (\<lambda>x. if order_id x = order_id h then put_on_hold x else x) (orders db)"
  "lines (preempt_order run p sid h db) = lines db"
  "bom_items (preempt_order run p sid h db) = bom_items db"
  "inv_items (preempt_order run p sid h db) = inv_items db"
  "plan_runs (preempt_order run p sid h db) = plan_runs db"
  "suppliers (preempt_order run p sid h db) = suppliers db"
  "purchase_orders (preempt_order run p sid h db) = purchase_orders db"
  "line_shift_profiles (preempt_order run p sid h db) = line_shift_profiles db"
  by (simp_all add: preempt_order_def Let_def allocs_in_def put_on_hold_def cong: filter_cong)

lemma filter_filter_conj: "filter P (filter Q xs) = filter (\<lambda>x. Q x \<and> P x) xs"
  by (induction xs) auto

lemma allocs_in_after:
  "allocs_in (preempt_order run p sid h db) run ids = allocs_in db run (ids - {order_id h})"
  by (auto simp: allocs_in_def preempt_order_tables)

lemma allocs_in_union:
  "allocs_in db run {k} \<union> allocs_in db run (ids - {k}) = allocs_in db run (insert k ids)"
  by (auto simp: allocs_in_def)

lemma preempt_fold_tables:
  "order_allocations (fold (preempt_order run p sid) hs db)
     = filter (\<lambda>a. \<not> (oa_run_id a = run \<and> oa_order_id a \<in> order_id ` set hs)) (order_allocations db)
   \<and> product_plans (fold (preempt_order run p sid) hs db)
     = filter (\<lambda>pl. plan_id pl \<notin> mk_plan_id run ` order_id ` set hs) (product_plans db)
   \<and> plan_items (fold (preempt_order run p sid) hs db)
     = filter (\<lambda>item. item_id item \<notin> plan_item_id ` allocs_in db run (order_id ` set hs))
         (plan_items db)
   \<and> orders (fold (preempt_order run p sid) hs db)
     = map (\<lambda>x. if order_id x \<in> order_id ` set hs then put_on_hold x else x) (orders db)
   \<and> lines (fold (preempt_order run p sid) hs db) = lines db
   \<and> bom_items (fold (preempt_order run p sid) hs db) = bom_items db
   \<and> inv_items (fold (preempt_order run p sid) hs db) = inv_items db
   \<and> plan_runs (fold (preempt_order run p sid) hs db) = plan_runs db
   \<and> suppliers (fold (preempt_order run p sid) hs db) = suppliers db
   \<and> purchase_orders (fold (preempt_order run p sid) hs db) = purchase_orders db
   \<and> line_shift_profiles (fold (preempt_order run p sid) hs db) = line_shift_profiles db"
proof (induction hs arbitrary: db)
  case Nil
  then show ?case by (simp add: allocs_in_def)
next
  case (Cons h hs)
  let ?db = "preempt_order run p sid h db"
  note ih = Cons.IH [of ?db]
  have a: "order_allocations (fold (preempt_order run p sid) (h # hs) db)
     = filter (\<lambda>a. \<not> (oa_run_id a = run \<and> oa_order_id a \<in> order_id ` set (h # hs)))
         (order_allocations db)"
    using ih by (auto simp: preempt_order_tables filter_filter_conj intro: filter_cong)
  have b: "product_plans (fold (preempt_order run p sid) (h # hs) db)
     = filter (\<lambda>pl. plan_id pl \<notin> mk_plan_id run ` order_id ` set (h # hs)) (product_plans db)"
    using ih by (auto simp: preempt_order_tables filter_filter_conj intro: filter_cong)
  have un: "plan_item_id ` allocs_in db run (order_id ` set (h # hs))
        = plan_item_id ` allocs_in db run {order_id h}
          \<union> plan_item_id ` allocs_in db run (order_id ` set hs - {order_id h})"
    unfolding image_Un [symmetric] allocs_in_union by simp
  have "plan_items (fold (preempt_order run p sid) hs ?db)
     = filter (\<lambda>item. item_id item \<notin> plan_item_id ` allocs_in ?db run (order_id ` set hs))
         (plan_items ?db)"
    using ih by blast
  then have "plan_items (fold (preempt_order run p sid) (h # hs) db)
     = filter (\<lambda>item. item_id item \<notin> plan_item_id ` allocs_in db run {order_id h}
                      \<and> item_id item \<notin> plan_item_id ` allocs_in db run (order_id ` set hs - {order_id h}))
         (plan_items db)"
    by (simp add: preempt_order_tables(3) allocs_in_after filter_filter_conj)
  also have "\<dots> = filter (\<lambda>item. item_id item \<notin> plan_item_id ` allocs_in db run (order_id ` set (h # hs)))
         (plan_items db)"
    unfolding un by (rule filter_cong [OF refl]) blast
  finally have c: "plan_items (fold (preempt_order run p sid) (h # hs) db)
     = filter (\<lambda>item. item_id item \<notin> plan_item_id ` allocs_in db run (order_id ` set (h # hs)))
         (plan_items db)" .
  have d: "orders (fold (preempt_order run p sid) (h # hs) db)
     = map (\<lambda>x. if order_id x \<in> order_id ` set (h # hs) then put_on_hold x else x) (orders db)"
    using ih by (auto simp: preempt_order_tables put_on_hold_def)
  from a b c d ih show ?case by (simp add: preempt_order_tables)
qed


lemma list_ex_filter_other:
  "k \<notin> S \<Longrightarrow> list_ex (\<lambda>p. f p = k) (filter (\<lambda>p. f p \<notin> S) xs) = list_ex (\<lambda>p. f p = k) xs"
  by (induction xs) auto

lemma held_ids_eq: "order_id ` set (orders_to_hold_of spike db) = held_ids spike db"
  by (auto simp: orders_to_hold_of_def held_ids_def competes_def Let_def)

lemma no_competitor: "(orders_to_hold_of spike db = []) = (\<forall>x\<in>set (orders db). \<not> competes spike x)"
  by (auto simp: orders_to_hold_of_def competes_def Let_def filter_empty_conv)

lemma preemption_is_fold:
  "fst (handle_spike_preemption run spike db)
     = fold (preempt_order run (o_product_id spike) (order_id spike)) (orders_to_hold_of spike db) db"
  by (simp add: handle_spike_preemption_def Let_def)

lemma preemption_tables:
  "order_allocations (fst (handle_spike_preemption run spike db))
     = filter (\<lambda>a. \<not> (oa_run_id a = run \<and> oa_order_id a \<in> held_ids spike db)) (order_allocations db)"
  "product_plans (fst (handle_spike_preemption run spike db))
     = filter (\<lambda>pl. plan_id pl \<notin> mk_plan_id run ` held_ids spike db) (product_plans db)"
  "plan_items (fst (handle_spike_preemption run spike db))
     = filter (\<lambda>item. item_id item \<notin> plan_item_id ` allocs_in db run (held_ids spike db))
         (plan_items db)"
  "orders (fst (handle_spike_preemption run spike db))
     = map (\<lambda>x. if order_id x \<in> held_ids spike db then put_on_hold x else x) (orders db)"
  "lines (fst (handle_spike_preemption run spike db)) = lines db"
  "bom_items (fst (handle_spike_preemption run spike db)) = bom_items db"
  "inv_items (fst (handle_spike_preemption run spike db)) = inv_items db"
  "plan_runs (fst (handle_spike_preemption run spike db)) = plan_runs db"
  using preempt_fold_tables [of run "o_product_id spike" "order_id spike" "orders_to_hold_of spike db" db]
  unfolding preemption_is_fold held_ids_eq by blast+

lemma held_id_iff:
  assumes "distinct (map order_id (orders db))" and "x \<in> set (orders db)"
  shows "(order_id x \<in> held_ids spike db) = competes spike x"
proof
  assume "order_id x \<in> held_ids spike db"
  then obtain y where y: "y \<in> set (orders db)" "competes spike y" "order_id y = order_id x"
    by (auto simp: held_ids_def)
  from assms(1) have "inj_on order_id (set (orders db))" by (simp add: distinct_map)
  with y assms(2) have "y = x" by (auto dest: inj_onD)
  with y show "competes spike x" by simp
next
  assume "competes spike x"
  with assms(2) show "order_id x \<in> held_ids spike db" by (auto simp: held_ids_def)
qed

text \<open>
  C4. After the preemption for a spike order, every order that competes with it (same
  product, not a spike, open or on hold, not the spike order itself) has no allocation in
  the run, none of the plan items that its allocations pointed to is left, its product
  plan in the run is gone and its status is \<^verbatim>\<open>ON_HOLD\<close>. Every other order keeps its
  allocations, its product plan and its status, and exactly the plan items linked to the
  allocations of the held orders are removed: an order is either cleared completely or
  not touched. Without a competing order the store stays as it is. Order identifiers are
  distinct (the primary key of the table).
\<close>

theorem C4_preemption_clears_competitors:
  assumes "distinct (map order_id (orders db))"
    and "db' = fst (handle_spike_preemption run spike db)"
  shows "(\<forall>x\<in>set (orders db). competes spike x \<longrightarrow>
            allocs_of db' run (order_id x) = []
            \<and> (\<forall>item\<in>set (plan_items db').
                  item_id item \<notin> plan_item_id ` set (allocs_of db run (order_id x)))
            \<and> \<not> has_plan db' run (order_id x))
       \<and> orders db' = map (\<lambda>x. if competes spike x then put_on_hold x else x) (orders db)
       \<and> (\<forall>x\<in>set (orders db). \<not> competes spike x \<longrightarrow>
            allocs_of db' run (order_id x) = allocs_of db run (order_id x)
            \<and> has_plan db' run (order_id x) = has_plan db run (order_id x))
       \<and> plan_items db'
           = filter (\<lambda>item. item_id item \<notin> plan_item_id ` allocs_in db run (held_ids spike db))
               (plan_items db)
       \<and> ((\<forall>x\<in>set (orders db). \<not> competes spike x) \<longrightarrow> db' = db)"
proof -
  note t = preemption_tables [of run spike db, folded assms(2)]
  have held: "\<forall>x\<in>set (orders db). competes spike x \<longrightarrow>
            allocs_of db' run (order_id x) = []
            \<and> (\<forall>item\<in>set (plan_items db').
                  item_id item \<notin> plan_item_id ` set (allocs_of db run (order_id x)))
            \<and> \<not> has_plan db' run (order_id x)"
  proof (intro ballI impI)
    fix x assume x: "x \<in> set (orders db)" and c: "competes spike x"
    then have h: "order_id x \<in> held_ids spike db" by (auto simp: held_ids_def)
    have 1: "allocs_of db' run (order_id x) = []"
      using h by (auto simp: allocs_of_def t(1) filter_empty_conv)
    have "set (allocs_of db run (order_id x)) \<subseteq> allocs_in db run (held_ids spike db)"
      using h by (auto simp: allocs_of_def allocs_in_def)
    then have 2: "\<forall>item\<in>set (plan_items db').
                  item_id item \<notin> plan_item_id ` set (allocs_of db run (order_id x))"
      unfolding t(3) by auto
    have 3: "\<not> has_plan db' run (order_id x)"
      using h by (auto simp: has_plan_def t(2) list_ex_iff)
    from 1 2 3 show "allocs_of db' run (order_id x) = []
            \<and> (\<forall>item\<in>set (plan_items db').
                  item_id item \<notin> plan_item_id ` set (allocs_of db run (order_id x)))
            \<and> \<not> has_plan db' run (order_id x)" by blast
  qed
  have ords: "orders db' = map (\<lambda>x. if competes spike x then put_on_hold x else x) (orders db)"
    unfolding t(4) by (rule map_cong [OF refl]) (simp add: held_id_iff [OF assms(1)])
  have kept: "\<forall>x\<in>set (orders db). \<not> competes spike x \<longrightarrow>
            allocs_of db' run (order_id x) = allocs_of db run (order_id x)
            \<and> has_plan db' run (order_id x) = has_plan db run (order_id x)"
  proof (intro ballI impI)
    fix x assume x: "x \<in> set (orders db)" and c: "\<not> competes spike x"
    with held_id_iff [OF assms(1)] have h: "order_id x \<notin> held_ids spike db" by blast
    have 1: "allocs_of db' run (order_id x) = allocs_of db run (order_id x)"
      unfolding allocs_of_def t(1) filter_filter_conj
      by (rule filter_cong [OF refl]) (use h in auto)
    have "mk_plan_id run (order_id x) \<notin> mk_plan_id run ` held_ids spike db"
      using h mk_plan_id_inj by blast
    then have 2: "has_plan db' run (order_id x) = has_plan db run (order_id x)"
      unfolding has_plan_def t(2) by (rule list_ex_filter_other)
    from 1 2 show "allocs_of db' run (order_id x) = allocs_of db run (order_id x)
            \<and> has_plan db' run (order_id x) = has_plan db run (order_id x)" by blast
  qed
  have none: "(\<forall>x\<in>set (orders db). \<not> competes spike x) \<longrightarrow> db' = db"
    unfolding assms(2) no_competitor [symmetric]
    by (simp add: handle_spike_preemption_def Let_def)
  from held ords kept t(3) none show ?thesis by blast
qed

theorem C4_preemption_clears_competitors_witness:
  "allocs_of (fst (handle_spike_preemption ''RUN-1'' order_s spike_db)) ''RUN-1'' ''ORD-B'' = []
   \<and> \<not> has_plan (fst (handle_spike_preemption ''RUN-1'' order_s spike_db)) ''RUN-1'' ''ORD-B''
   \<and> map status (orders (fst (handle_spike_preemption ''RUN-1'' order_s spike_db)))
       = [''ON_HOLD'', ''OPEN'']
   \<and> plan_items (fst (handle_spike_preemption ''RUN-1'' order_s spike_db)) = []"
proof -
  have d: "distinct (map order_id (orders spike_db))"
    by (simp add: spike_db_def empty_db_def order_b_def order_s_def)
  have b: "order_b \<in> set (orders spike_db)" and cb: "competes order_s order_b"
    and cs: "\<not> competes order_s order_s"
    by (simp_all add: spike_db_def empty_db_def competes_def order_b_def order_s_def)
  have o: "orders spike_db = [order_b, order_s]" by (simp add: spike_db_def empty_db_def)
  have ib: "order_id order_b = ''ORD-B''" by (simp add: order_b_def)
  have items: "\<forall>item\<in>set (plan_items (fst (handle_spike_preemption ''RUN-1'' order_s spike_db))).
                  item_id item \<notin> plan_item_id ` set (allocs_of spike_db ''RUN-1'' ''ORD-B'')
         \<Longrightarrow> plan_items (fst (handle_spike_preemption ''RUN-1'' order_s spike_db)) = []"
    by code_simp
  from C4_preemption_clears_competitors [OF d refl, where run = "''RUN-1''" and spike = order_s]
    b cb cs o ib items
  show ?thesis by (auto simp: put_on_hold_def order_b_def order_s_def)
qed

section \<open>What the allocator does to the store\<close>

subsection \<open>The shares are not negative\<close>

lemma distribute_loop_nonneg:
  "distribute_loop t tcu lc ls (r, a) = (r', a') \<Longrightarrow> \<forall>i. 0 \<le> dict_get a i 0 \<Longrightarrow>
   \<forall>i. 0 \<le> dict_get a' i 0"
proof (induction ls arbitrary: r a)
  case Nil
  then show ?case by simp
next
  case (Cons l ls)
  show ?case
  proof (cases "dict_get lc (line_id l) 0 \<le> 0 \<or> r \<le> 0")
    case True
    with Cons.prems have "distribute_loop t tcu lc ls (r, a) = (r', a')" by auto
    from Cons.IH [OF this Cons.prems(2)] show ?thesis .
  next
    case False
    define q where "q = max 0 (min (py_round (of_int t * (dict_get lc (line_id l) 0 / tcu))) r)"
    let ?a = "a(line_id l \<mapsto> dict_get a (line_id l) 0 + q)"
    from False Cons.prems(1) have run: "distribute_loop t tcu lc ls (r - q, ?a) = (r', a')"
      by (simp add: q_def Let_def)
    have "0 \<le> q" by (simp add: q_def)
    with Cons.prems(2) have "\<forall>i. 0 \<le> dict_get ?a i 0" by (simp add: dict_get_def)
    from Cons.IH [of "r - q" ?a, OF run this] show ?thesis .
  qed
qed

lemma topup_loop_nonneg:
  "topup_loop ls (r, a) = (r', a') \<Longrightarrow> \<forall>i. 0 \<le> dict_get a i 0 \<Longrightarrow> \<forall>i. 0 \<le> dict_get a' i 0"
proof (induction ls arbitrary: r a)
  case Nil
  then show ?case by simp
next
  case (Cons l ls)
  show ?case
  proof (cases "r \<le> 0")
    case True
    with Cons.prems show ?thesis by simp
  next
    case False
    let ?a = "a(line_id l \<mapsto> dict_get a (line_id l) 0 + 1)"
    from False Cons.prems(1) have run: "topup_loop ls (r - 1, ?a) = (r', a')" by simp
    from Cons.prems(2) have "\<forall>i. 0 \<le> dict_get ?a i 0" by (simp add: dict_get_def)
    from Cons.IH [of "r - 1" ?a, OF run this] show ?thesis .
  qed
qed

lemma allocate_lines_nonneg:
  assumes "allocate_lines t tcu lc ls = (r, a)"
  shows "\<forall>i. 0 \<le> dict_get a i 0"
proof -
  obtain r1 a1 where d: "distribute_loop t tcu lc ls (t, Map.empty) = (r1, a1)"
    by (cases "distribute_loop t tcu lc ls (t, Map.empty)")
  have "\<forall>i. 0 \<le> dict_get (Map.empty :: string \<rightharpoonup> int) i 0" by (simp add: dict_get_def)
  from distribute_loop_nonneg [OF d this] have n1: "\<forall>i. 0 \<le> dict_get a1 i 0" .
  show ?thesis
  proof (cases "0 < r1")
    case True
    with d assms
    have "topup_loop (sorted_desc (\<lambda>l. dict_get lc (line_id l) 0) ls) (r1, a1) = (r, a)"
      by (simp add: allocate_lines_def)
    from topup_loop_nonneg [OF this n1] show ?thesis .
  next
    case False
    with d assms have "a = a1" by (simp add: allocate_lines_def)
    with n1 show ?thesis by simp
  qed
qed

lemma positive_allocs_sum:
  "\<forall>i. 0 \<le> dict_get a i 0 \<Longrightarrow> sum_list (positive_allocs a ls) = alloc_sum a ls"
proof (induction ls)
  case Nil
  then show ?case by (simp add: positive_allocs_def alloc_sum_def)
next
  case (Cons l ls)
  from Cons.prems have nn: "0 \<le> dict_get a (line_id l) 0" by blast
  from Cons have ih: "sum_list (positive_allocs a ls) = alloc_sum a ls" by blast
  show ?case
  proof (cases "0 < dict_get a (line_id l) 0")
    case True
    with ih show ?thesis by (simp add: positive_allocs_def alloc_sum_def)
  next
    case False
    with nn have "dict_get a (line_id l) 0 = 0" by linarith
    with ih show ?thesis by (simp add: positive_allocs_def alloc_sum_def)
  qed
qed

subsection \<open>The rows of one order\<close>

lemma add_event_tables:
  "orders (ps_db (add_event ty about st)) = orders (ps_db st)"
  "lines (ps_db (add_event ty about st)) = lines (ps_db st)"
  "bom_items (ps_db (add_event ty about st)) = bom_items (ps_db st)"
  "inv_items (ps_db (add_event ty about st)) = inv_items (ps_db st)"
  "suppliers (ps_db (add_event ty about st)) = suppliers (ps_db st)"
  "purchase_orders (ps_db (add_event ty about st)) = purchase_orders (ps_db st)"
  "plan_runs (ps_db (add_event ty about st)) = plan_runs (ps_db st)"
  "line_shift_profiles (ps_db (add_event ty about st)) = line_shift_profiles (ps_db st)"
  "product_plans (ps_db (add_event ty about st)) = product_plans (ps_db st)"
  "plan_items (ps_db (add_event ty about st)) = plan_items (ps_db st)"
  "order_allocations (ps_db (add_event ty about st)) = order_allocations (ps_db st)"
  "events (ps_db (add_event ty about st)) = events (ps_db st) @ [Event ty about]"
  "ps_planned_usage (add_event ty about st) = ps_planned_usage st"
  by (simp_all add: add_event_def log_event_def)

lemma create_item_tables:
  "orders (ps_db (create_item run pid ord hs alloc lin st)) = orders (ps_db st)"
  "lines (ps_db (create_item run pid ord hs alloc lin st)) = lines (ps_db st)"
  "bom_items (ps_db (create_item run pid ord hs alloc lin st)) = bom_items (ps_db st)"
  "inv_items (ps_db (create_item run pid ord hs alloc lin st)) = inv_items (ps_db st)"
  "suppliers (ps_db (create_item run pid ord hs alloc lin st)) = suppliers (ps_db st)"
  "purchase_orders (ps_db (create_item run pid ord hs alloc lin st)) = purchase_orders (ps_db st)"
  "plan_runs (ps_db (create_item run pid ord hs alloc lin st)) = plan_runs (ps_db st)"
  "line_shift_profiles (ps_db (create_item run pid ord hs alloc lin st))
     = line_shift_profiles (ps_db st)"
  "product_plans (ps_db (create_item run pid ord hs alloc lin st)) = product_plans (ps_db st)"
  "events (ps_db (create_item run pid ord hs alloc lin st)) = events (ps_db st)"
  by (simp_all add: create_item_def Let_def)

lemma create_item_rows:
  "\<exists>oa item. order_allocations (ps_db (create_item run pid ord hs alloc lin st))
                 = order_allocations (ps_db st) @ [oa]
      \<and> plan_items (ps_db (create_item run pid ord hs alloc lin st)) = plan_items (ps_db st) @ [item]
      \<and> oa_run_id oa = run \<and> oa_order_id oa = order_id ord \<and> allocated_qty oa = alloc"
  by (simp add: create_item_def Let_def)

lemma create_items_loop_effect:
  "create_items_loop run pid ord hs a ls (st, tot) = (st', tot') \<Longrightarrow>
     same_master (ps_db st) (ps_db st')
     \<and> product_plans (ps_db st') = product_plans (ps_db st)
     \<and> events (ps_db st') = events (ps_db st)
     \<and> (\<exists>new items. order_allocations (ps_db st') = order_allocations (ps_db st) @ new
           \<and> plan_items (ps_db st') = plan_items (ps_db st) @ items
           \<and> rows_for run (order_id ord) new
           \<and> map allocated_qty new = positive_allocs a ls)
     \<and> tot' = tot + sum_list (positive_allocs a ls)"
proof (induction ls arbitrary: st tot)
  case Nil
  then show ?case by (simp add: same_master_def rows_for_def positive_allocs_def)
next
  case (Cons l ls)
  let ?alloc = "dict_get a (line_id l) 0"
  show ?case
  proof (cases "?alloc \<le> 0")
    case True
    with Cons.prems have "create_items_loop run pid ord hs a ls (st, tot) = (st', tot')" by simp
    from Cons.IH [OF this] True show ?thesis by (simp add: positive_allocs_def)
  next
    case False
    let ?st = "create_item run pid ord hs ?alloc l st"
    from False Cons.prems
    have run: "create_items_loop run pid ord hs a ls (?st, tot + ?alloc) = (st', tot')"
      by (simp add: Let_def)
    from create_item_rows [of run pid ord hs ?alloc l st]
    obtain oa item where r1: "order_allocations (ps_db ?st) = order_allocations (ps_db st) @ [oa]"
      "plan_items (ps_db ?st) = plan_items (ps_db st) @ [item]"
      "oa_run_id oa = run" "oa_order_id oa = order_id ord" "allocated_qty oa = ?alloc"
      by blast
    from Cons.IH [OF run]
    obtain new items where ih: "same_master (ps_db ?st) (ps_db st')"
      "product_plans (ps_db st') = product_plans (ps_db ?st)"
      "events (ps_db st') = events (ps_db ?st)"
      "order_allocations (ps_db st') = order_allocations (ps_db ?st) @ new"
      "plan_items (ps_db st') = plan_items (ps_db ?st) @ items"
      "rows_for run (order_id ord) new"
      "map allocated_qty new = positive_allocs a ls"
      "tot' = tot + ?alloc + sum_list (positive_allocs a ls)"
      by blast
    have pa: "positive_allocs a (l # ls) = ?alloc # positive_allocs a ls"
      using False by (simp add: positive_allocs_def)
    have "same_master (ps_db st) (ps_db st')"
      using ih(1) by (simp add: same_master_def create_item_tables)
    moreover have "product_plans (ps_db st') = product_plans (ps_db st)"
      "events (ps_db st') = events (ps_db st)"
      using ih(2,3) by (simp_all add: create_item_tables)
    moreover have "order_allocations (ps_db st') = order_allocations (ps_db st) @ (oa # new)"
      "plan_items (ps_db st') = plan_items (ps_db st) @ (item # items)"
      using ih(4,5) r1(1,2) by simp_all
    moreover have "rows_for run (order_id ord) (oa # new)"
      using ih(6) r1(3,4) by (simp add: rows_for_def)
    moreover have "map allocated_qty (oa # new) = positive_allocs a (l # ls)"
      using ih(7) r1(5) pa by simp
    moreover have "tot' = tot + sum_list (positive_allocs a (l # ls))"
      using ih(8) pa by simp
    ultimately show ?thesis by blast
  qed
qed


lemma capacity_total_of:
  assumes "distinct (map line_id ls)" and "capacity_loop hz ls (Map.empty, 0) = (lc, tcu)"
  shows "tcu = total_capacity_of hz ls"
  using capacity_loop_spec [OF assms] by (simp add: total_capacity_of_def)

lemma allocate_order_effect:
  assumes "distinct (map line_id order_lines)"
    and "st' = allocate_order today hdd run stock ord order_lines st"
  shows "same_master (ps_db st) (ps_db st')
     \<and> product_plans (ps_db st') = product_plans (ps_db st)
     \<and> (\<exists>new items. order_allocations (ps_db st') = order_allocations (ps_db st) @ new
           \<and> plan_items (ps_db st') = plan_items (ps_db st) @ items
           \<and> rows_for run (order_id ord) new
           \<and> sum_list (map allocated_qty new) = planned_total today hdd stock ord order_lines st
           \<and> (planned_total today hdd stock ord order_lines st = 0 \<longrightarrow> new = [] \<and> items = []))
     \<and> (planned_total today hdd stock ord order_lines st = 0 \<longrightarrow>
          (\<exists>ty about. ty \<in> shortfall_types
             \<and> events (ps_db st') = events (ps_db st) @ [Event ty about]))"
proof -
  let ?hz = "horizon_days_of today hdd ord"
  obtain lc tcu where cl: "capacity_loop ?hz order_lines (Map.empty, 0) = (lc, tcu)"
    by (cases "capacity_loop ?hz order_lines (Map.empty, 0)")
  have tcu: "tcu = total_capacity_of ?hz order_lines"
    using assms(1) cl by (rule capacity_total_of)
  define inv_limit where
    "inv_limit = max_units_from_inventory (bom_items (ps_db st)) stock (ps_planned_usage st)
                   (o_product_id ord)"
  define target where "target = target_qty_of (quantity ord) tcu inv_limit"
  have pt: "planned_total today hdd stock ord order_lines st
              = (if tcu \<le> 0 \<or> inv_limit \<le> 0 \<or> target \<le> 0 then 0 else target)"
    by (simp add: planned_total_def Let_def tcu inv_limit_def target_def)
  have short: "?thesis" if ty: "k \<in> shortfall_types" and s: "st' = add_event k ab st"
      and z: "planned_total today hdd stock ord order_lines st = 0" for k ab
  proof -
    have "same_master (ps_db st) (ps_db st')"
      by (simp add: s same_master_def add_event_tables)
    moreover have "product_plans (ps_db st') = product_plans (ps_db st)"
      by (simp add: s add_event_tables)
    moreover have "order_allocations (ps_db st') = order_allocations (ps_db st) @ []"
      "plan_items (ps_db st') = plan_items (ps_db st) @ []"
      by (simp_all add: s add_event_tables)
    moreover have "rows_for run (order_id ord) []" by (simp add: rows_for_def)
    moreover have "sum_list (map allocated_qty []) = planned_total today hdd stock ord order_lines st"
      using z by simp
    moreover have "events (ps_db st') = events (ps_db st) @ [Event k ab]"
      by (simp add: s add_event_tables)
    ultimately show ?thesis using ty by blast
  qed
  show ?thesis
  proof (cases "tcu \<le> 0")
    case True
    then have "st' = add_event ''CAPACITY_SHORTFALL'' [order_id ord, o_product_id ord] st"
      by (simp add: assms(2) allocate_order_def Let_def cl)
    moreover have "''CAPACITY_SHORTFALL'' \<in> shortfall_types" by (simp add: shortfall_types_def)
    ultimately show ?thesis using True pt by (intro short) simp_all
  next
    case c: False
    show ?thesis
    proof (cases "inv_limit \<le> 0")
      case True
      with c have "st' = add_event ''INVENTORY_SHORTFALL'' [o_product_id ord, order_id ord] st"
        by (simp add: assms(2) allocate_order_def Let_def cl inv_limit_def)
      moreover have "''INVENTORY_SHORTFALL'' \<in> shortfall_types" by (simp add: shortfall_types_def)
      ultimately show ?thesis using True pt by (intro short) simp_all
    next
      case i: False
      show ?thesis
      proof (cases "target \<le> 0")
        case True
        with c i have "st' = add_event ''CAPACITY_SHORTFALL'' [order_id ord] st"
          by (simp add: assms(2) allocate_order_def Let_def cl inv_limit_def target_def)
        moreover have "''CAPACITY_SHORTFALL'' \<in> shortfall_types" by (simp add: shortfall_types_def)
        ultimately show ?thesis using True pt by (intro short) simp_all
      next
        case t: False
        define st1 where "st1 = (if py_int tcu < quantity ord
                                 then add_event ''CAPACITY_SHORTFALL'' [order_id ord] st else st)"
        define st2 where "st2 = (if inv_limit < quantity ord
                                 then add_event ''INVENTORY_SHORTFALL'' [order_id ord] st1 else st1)"
        obtain r a where al: "allocate_lines target tcu lc order_lines = (r, a)"
          by (cases "allocate_lines target tcu lc order_lines")
        obtain st3 tot where ci: "create_items_loop run (mk_plan_id run (order_id ord)) ord
            (horizon_start_of today ord) a order_lines (st2, 0) = (st3, tot)"
          by (cases "create_items_loop run (mk_plan_id run (order_id ord)) ord
            (horizon_start_of today ord) a order_lines (st2, 0)")
        have res: "st' = (if tot < quantity ord
                          then add_event ''CAPACITY_SHORTFALL'' [order_id ord] st3 else st3)"
          using c i t al ci
          by (simp add: assms(2) allocate_order_def Let_def cl inv_limit_def [symmetric]
              target_def [symmetric] st1_def [symmetric] st2_def [symmetric])
        have m2: "same_master (ps_db st) (ps_db st2)"
          "product_plans (ps_db st2) = product_plans (ps_db st)"
          "order_allocations (ps_db st2) = order_allocations (ps_db st)"
          "plan_items (ps_db st2) = plan_items (ps_db st)"
          by (simp_all add: st2_def st1_def same_master_def add_event_tables)
        from create_items_loop_effect [OF ci]
        obtain new items where e3: "same_master (ps_db st2) (ps_db st3)"
          "product_plans (ps_db st3) = product_plans (ps_db st2)"
          "order_allocations (ps_db st3) = order_allocations (ps_db st2) @ new"
          "plan_items (ps_db st3) = plan_items (ps_db st2) @ items"
          "rows_for run (order_id ord) new"
          "map allocated_qty new = positive_allocs a order_lines"
          by blast
        have "0 < tcu" "0 < target" using c t by simp_all
        from allocate_lines_exact [OF assms(1) cl this al]
        have "alloc_sum a order_lines = target" by simp
        moreover have "sum_list (positive_allocs a order_lines) = alloc_sum a order_lines"
          using allocate_lines_nonneg [OF al] by (rule positive_allocs_sum)
        ultimately have sum: "sum_list (map allocated_qty new) = target" using e3(6) by simp
        have ptt: "planned_total today hdd stock ord order_lines st = target"
          "planned_total today hdd stock ord order_lines st \<noteq> 0"
          using pt c i t by simp_all
        have "same_master (ps_db st) (ps_db st')"
          using m2(1) e3(1) by (simp add: res same_master_def add_event_tables)
        moreover have "product_plans (ps_db st') = product_plans (ps_db st)"
          using m2(2) e3(2) by (simp add: res add_event_tables)
        moreover have "order_allocations (ps_db st') = order_allocations (ps_db st) @ new"
          "plan_items (ps_db st') = plan_items (ps_db st) @ items"
          using m2(3,4) e3(3,4) by (simp_all add: res add_event_tables)
        ultimately show ?thesis using e3(5) sum ptt by auto
      qed
    qed
  qed
qed

lemma plan_order_effect:
  assumes "distinct (map line_id (lines (ps_db st)))"
    and "st' = plan_order today hdd run stock ord st"
    and "order_lines = filter (\<lambda>l. l_product_id l = o_product_id ord) (lines (ps_db st))"
  shows "same_master (ps_db st) (ps_db st')"
    and "order_lines = [] \<or> has_plan (ps_db st) run (order_id ord) \<Longrightarrow>
         product_plans (ps_db st') = product_plans (ps_db st)
         \<and> plan_items (ps_db st') = plan_items (ps_db st)
         \<and> order_allocations (ps_db st') = order_allocations (ps_db st)
         \<and> ps_planned_usage st' = ps_planned_usage st"
    and "order_lines \<noteq> [] \<Longrightarrow> \<not> has_plan (ps_db st) run (order_id ord) \<Longrightarrow>
         (\<exists>plan new items. product_plans (ps_db st') = product_plans (ps_db st) @ [plan]
            \<and> plan_id plan = mk_plan_id run (order_id ord)
            \<and> order_allocations (ps_db st') = order_allocations (ps_db st) @ new
            \<and> plan_items (ps_db st') = plan_items (ps_db st) @ items
            \<and> rows_for run (order_id ord) new
            \<and> sum_list (map allocated_qty new) = planned_total today hdd stock ord order_lines st
            \<and> (planned_total today hdd stock ord order_lines st = 0 \<longrightarrow> new = [] \<and> items = []))"
proof -
  have dl: "distinct (map line_id order_lines)"
    unfolding assms(3) using assms(1) by (rule distinct_map_filter)
  let ?plan = "\<lparr>plan_id = mk_plan_id run (order_id ord), pp_run_id = run, plan_date = today,
               pp_status = ''PLANNED''\<rparr>"
  let ?st1 = "st\<lparr>ps_db := (ps_db st)\<lparr>product_plans := product_plans (ps_db st) @ [?plan]\<rparr>\<rparr>"
  have pt1: "planned_total today hdd stock ord order_lines ?st1
               = planned_total today hdd stock ord order_lines st"
    by (simp add: planned_total_def)
  have skip1: "order_lines = [] \<Longrightarrow>
      st' = add_event ''NO_LINE_FOR_PRODUCT'' [o_product_id ord, order_id ord] st"
    by (simp add: assms(2,3) plan_order_def Let_def)
  have skip2: "order_lines \<noteq> [] \<Longrightarrow> has_plan (ps_db st) run (order_id ord) \<Longrightarrow> st' = st"
    by (simp add: assms(2,3) plan_order_def Let_def has_plan_def)
  have go: "order_lines \<noteq> [] \<Longrightarrow> \<not> has_plan (ps_db st) run (order_id ord) \<Longrightarrow>
      st' = allocate_order today hdd run stock ord order_lines ?st1"
    by (simp add: assms(2,3) plan_order_def Let_def has_plan_def)
  show "same_master (ps_db st) (ps_db st')"
  proof (cases "order_lines = []")
    case True
    with skip1 show ?thesis by (simp add: same_master_def add_event_tables)
  next
    case ne: False
    show ?thesis
    proof (cases "has_plan (ps_db st) run (order_id ord)")
      case True
      with ne skip2 show ?thesis by (simp add: same_master_def)
    next
      case False
      from allocate_order_effect [OF dl go [OF ne False]]
      have "same_master (ps_db ?st1) (ps_db st')" by blast
      then show ?thesis by (simp add: same_master_def)
    qed
  qed
  show "product_plans (ps_db st') = product_plans (ps_db st)
         \<and> plan_items (ps_db st') = plan_items (ps_db st)
         \<and> order_allocations (ps_db st') = order_allocations (ps_db st)
         \<and> ps_planned_usage st' = ps_planned_usage st"
    if "order_lines = [] \<or> has_plan (ps_db st) run (order_id ord)"
  proof (cases "order_lines = []")
    case True
    with skip1 show ?thesis by (simp add: add_event_tables)
  next
    case False
    with that skip2 show ?thesis by simp
  qed
  show "\<exists>plan new items. product_plans (ps_db st') = product_plans (ps_db st) @ [plan]
            \<and> plan_id plan = mk_plan_id run (order_id ord)
            \<and> order_allocations (ps_db st') = order_allocations (ps_db st) @ new
            \<and> plan_items (ps_db st') = plan_items (ps_db st) @ items
            \<and> rows_for run (order_id ord) new
            \<and> sum_list (map allocated_qty new) = planned_total today hdd stock ord order_lines st
            \<and> (planned_total today hdd stock ord order_lines st = 0 \<longrightarrow> new = [] \<and> items = [])"
    if ne: "order_lines \<noteq> []" and np: "\<not> has_plan (ps_db st) run (order_id ord)"
  proof -
    from allocate_order_effect [OF dl go [OF ne np]]
    obtain new items where e: "product_plans (ps_db st') = product_plans (ps_db ?st1)"
      "order_allocations (ps_db st') = order_allocations (ps_db ?st1) @ new"
      "plan_items (ps_db st') = plan_items (ps_db ?st1) @ items"
      "rows_for run (order_id ord) new"
      "sum_list (map allocated_qty new) = planned_total today hdd stock ord order_lines ?st1"
      "planned_total today hdd stock ord order_lines ?st1 = 0 \<longrightarrow> new = [] \<and> items = []"
      by blast
    have "product_plans (ps_db st') = product_plans (ps_db st) @ [?plan]" using e(1) by simp
    moreover have "plan_id ?plan = mk_plan_id run (order_id ord)" by simp
    moreover have "order_allocations (ps_db st') = order_allocations (ps_db st) @ new"
      "plan_items (ps_db st') = plan_items (ps_db st) @ items"
      using e(2,3) by simp_all
    ultimately show ?thesis using e(4,5,6) unfolding pt1 by blast
  qed
qed

section \<open>The target quantity of an order\<close>









section \<open>The invariants of a planning pass\<close>

subsection \<open>Bounds of the planned quantity\<close>








subsection \<open>Totals of an order when rows are added or removed\<close>


lemma has_plan_append:
  "product_plans db' = product_plans db @ [plan] \<Longrightarrow>
   has_plan db' run k = (has_plan db run k \<or> plan_id plan = mk_plan_id run k)"
  by (auto simp: has_plan_def list_ex_iff)



subsection \<open>The invariants depend on a few tables only\<close>

lemma has_plan_cong: "product_plans db' = product_plans db \<Longrightarrow> has_plan db' run k = has_plan db run k"
  by (simp add: has_plan_def)


lemma lines_of_cong: "lines db' = lines db \<Longrightarrow> lines_of db' ord = lines_of db ord"
  by (simp add: lines_of_def)

lemma plan_wf_cong:
  "orders db' = orders db \<Longrightarrow> lines db' = lines db \<Longrightarrow> plan_wf db' = plan_wf db"
  by (simp add: plan_wf_def)

lemma row_of_cong: "orders db' = orders db \<Longrightarrow> row_of db' x = row_of db x"
  by (simp add: row_of_def)



subsection \<open>One order of the loop\<close>





subsection \<open>Preemption\<close>





subsection \<open>The whole pass\<close>

lemma get_or_create_tables:
  assumes "get_or_create_plan_run nid now db = Inr (r, is_new, db1)"
  shows "orders db1 = orders db" "lines db1 = lines db" "product_plans db1 = product_plans db"
    "order_allocations db1 = order_allocations db" "plan_items db1 = plan_items db"
    "bom_items db1 = bom_items db" "inv_items db1 = inv_items db"
    "plan_runs db1 = (if is_new then plan_runs db @ [r] else plan_runs db)"
    "is_new = (latest_baseline (plan_runs db) = None)"
    "\<not> is_new \<Longrightarrow> latest_baseline (plan_runs db) = Some r"
    "is_new \<Longrightarrow> r = \<lparr>run_id = nid, scenario = ''BASELINE'', created_at = now\<rparr>"
  using assms
  by (auto simp: get_or_create_plan_run_def Let_def split: option.splits if_splits)

lemma add_profiles_tables:
  "orders (add_profiles b run db) = orders db" "lines (add_profiles b run db) = lines db"
  "product_plans (add_profiles b run db) = product_plans db"
  "order_allocations (add_profiles b run db) = order_allocations db"
  "plan_items (add_profiles b run db) = plan_items db"
  "plan_runs (add_profiles b run db) = plan_runs db"
  "bom_items (add_profiles b run db) = bom_items db"
  by (simp_all add: add_profiles_def)

lemma pass_unfold:
  assumes "plan_all_open_orders today nid now hdd db = Inr (run, db')"
  obtains the_run is_new db1 where
    "get_or_create_plan_run nid now db = Inr (the_run, is_new, db1)"
    "orders_todo (add_profiles is_new (run_id the_run) db1) (run_id the_run) = []
       \<and> run = run_id the_run \<and> db' = add_profiles is_new (run_id the_run) db1
     \<or> orders_todo (add_profiles is_new (run_id the_run) db1) (run_id the_run) \<noteq> []
       \<and> plan_todo today hdd (run_id the_run) (stock_by_material_of (inv_items db1))
            (orders_todo (add_profiles is_new (run_id the_run) db1) (run_id the_run))
            (add_profiles is_new (run_id the_run) db1,
             get_line_occupancy (add_profiles is_new (run_id the_run) db1) (run_id the_run))
           = Inr (run, db')"
proof (cases "get_or_create_plan_run nid now db")
  case (Inl e)
  with assms show ?thesis by (simp add: plan_all_open_orders_def)
next
  case (Inr t)
  obtain the_run is_new db1 where t: "t = (the_run, is_new, db1)" by (cases t)
  from assms Inr t that [of the_run is_new db1] show ?thesis
    by (auto simp: plan_all_open_orders_def Let_def split: if_splits)
qed

lemma plan_todo_unfold:
  assumes "plan_todo today hdd run stock todo s = Inr (run', db')"
  obtains otp where
    "sort_orders (filter is_spike todo @ filter (\<lambda>x. \<not> is_spike x) todo) = Inr otp"
    "set otp \<subseteq> set todo" "run' = run"
    "db' = ps_db (fold (plan_order today hdd run stock) otp
                    \<lparr>ps_db = fst (preempt_all run (filter is_spike todo) s),
                     ps_planned_usage = Map.empty,
                     ps_line_occupancy = snd (preempt_all run (filter is_spike todo) s)\<rparr>)"
proof (cases "sort_orders (filter is_spike todo @ filter (\<lambda>x. \<not> is_spike x) todo)")
  case (Inl e)
  with assms show ?thesis
    by (simp add: plan_todo_def Let_def split: prod.splits)
next
  case (Inr otp)
  then have "otp = sort_key order_sort_key (filter is_spike todo @ filter (\<lambda>x. \<not> is_spike x) todo)"
    by (simp add: sort_orders_def split: if_splits)
  then have sub: "set otp \<subseteq> set todo" by auto
  from assms Inr have "run' = run"
    "db' = ps_db (fold (plan_order today hdd run stock) otp
                    \<lparr>ps_db = fst (preempt_all run (filter is_spike todo) s),
                     ps_planned_usage = Map.empty,
                     ps_line_occupancy = snd (preempt_all run (filter is_spike todo) s)\<rparr>)"
    by (auto simp: plan_todo_def Let_def split: prod.splits)
  with Inr sub that show ?thesis by blast
qed

lemma orders_todo_subset: "set (orders_todo db run) \<subseteq> set (orders db)"
  by (auto simp: orders_todo_def Let_def)







lemma plan_db_pass: "plan_all_open_orders 10 ''RUN-1'' 9 9 plan_db = Inr (''RUN-1'', planned_db)"
  by code_simp



section \<open>Planning twice\<close>

subsection \<open>The orders that are already fully allocated\<close>

lemma alist_get_update:
  "alist_get (AList.update k v al) j d = (if j = k then v else alist_get al j d)"
  by (simp add: alist_get_def update_conv')

lemma allocated_fold:
  "distinct (map fst acc0) \<Longrightarrow>
   distinct (map fst (fold (\<lambda>alloc acc. AList.update (oa_order_id alloc)
                              (alist_get acc (oa_order_id alloc) 0 + allocated_qty alloc) acc) as acc0))
   \<and> fst ` set (fold (\<lambda>alloc acc. AList.update (oa_order_id alloc)
                              (alist_get acc (oa_order_id alloc) 0 + allocated_qty alloc) acc) as acc0)
       = fst ` set acc0 \<union> oa_order_id ` set as
   \<and> (\<forall>k. alist_get (fold (\<lambda>alloc acc. AList.update (oa_order_id alloc)
                              (alist_get acc (oa_order_id alloc) 0 + allocated_qty alloc) acc) as acc0) k 0
          = alist_get acc0 k 0 + sum_list (map allocated_qty (filter (\<lambda>a. oa_order_id a = k) as)))"
proof (induction as arbitrary: acc0)
  case Nil
  then show ?case by simp
next
  case (Cons a as)
  let ?acc = "AList.update (oa_order_id a) (alist_get acc0 (oa_order_id a) 0 + allocated_qty a) acc0"
  from Cons.prems have d: "distinct (map fst ?acc)" by (simp add: distinct_update)
  have keys: "fst ` set ?acc = insert (oa_order_id a) (fst ` set acc0)"
    by (simp add: dom_update)
  from Cons.IH [OF d] keys show ?case
    by (auto simp: alist_get_update)
qed

lemma already_allocated_iff:
  assumes "distinct (map order_id (orders db))" and "x \<in> set (orders db)"
  shows "(order_id x \<in> set (get_already_allocated_orders db run)) = fully_allocated db run x"
proof -
  let ?as = "filter (\<lambda>a. oa_run_id a = run) (order_allocations db)"
  let ?R = "fold (\<lambda>alloc acc. AList.update (oa_order_id alloc)
                              (alist_get acc (oa_order_id alloc) 0 + allocated_qty alloc) acc) ?as []"
  from allocated_fold [of "[]" ?as]
  have d: "distinct (map fst ?R)" and keys: "fst ` set ?R = oa_order_id ` set ?as"
    and val: "\<And>k. alist_get ?R k 0
                = sum_list (map allocated_qty (filter (\<lambda>a. oa_order_id a = k) ?as))"
    by (simp_all add: alist_get_def)
  have tot: "sum_list (map allocated_qty (filter (\<lambda>a. oa_order_id a = k) ?as))
               = order_alloc_total db run k" for k
    by (simp add: order_alloc_total_def allocs_of_def filter_filter_conj)
  have nonempty: "(k \<in> oa_order_id ` set ?as) = (allocs_of db run k \<noteq> [])" for k
    by (auto simp: allocs_of_def filter_empty_conv)
  have find: "find (\<lambda>ord. order_id ord = order_id x) (orders db) = Some x"
  proof -
    from assms(1) have inj: "inj_on order_id (set (orders db))" by (simp add: distinct_map)
    obtain y where y: "find (\<lambda>ord. order_id ord = order_id x) (orders db) = Some y"
      using assms(2) by (cases "find (\<lambda>ord. order_id ord = order_id x) (orders db)")
        (auto simp: find_None_iff)
    then have "y \<in> set (orders db)" "order_id y = order_id x"
      by (auto simp: find_Some_iff)
    with inj assms(2) have "y = x" unfolding inj_on_def by metis
    with y show ?thesis by simp
  qed
  have pair: "((order_id x, q) \<in> set ?R) = (order_id x \<in> fst ` set ?R \<and> q = alist_get ?R (order_id x) 0)"
    for q
  proof
    assume m: "(order_id x, q) \<in> set ?R"
    with d have "map_of ?R (order_id x) = Some q" by simp
    with m show "order_id x \<in> fst ` set ?R \<and> q = alist_get ?R (order_id x) 0"
      by (force simp: alist_get_def)
  next
    assume a: "order_id x \<in> fst ` set ?R \<and> q = alist_get ?R (order_id x) 0"
    then obtain q' where q': "(order_id x, q') \<in> set ?R" by force
    with d have "map_of ?R (order_id x) = Some q'" by simp
    with a have "q = q'" by (simp add: alist_get_def)
    with q' show "(order_id x, q) \<in> set ?R" by simp
  qed
  have "(order_id x \<in> set (get_already_allocated_orders db run))
          = (\<exists>q. (order_id x, q) \<in> set ?R \<and> quantity x \<le> q)"
    using find by (force simp: get_already_allocated_orders_def Let_def)
  also have "\<dots> = (order_id x \<in> fst ` set ?R \<and> quantity x \<le> alist_get ?R (order_id x) 0)"
    unfolding pair by auto
  also have "\<dots> = fully_allocated db run x"
    by (simp only: keys nonempty val tot fully_allocated_def)
  finally show ?thesis .
qed

lemma orders_todo_iff:
  assumes "distinct (map order_id (orders db))"
  shows "(x \<in> set (orders_todo db run))
           = (x \<in> set (orders db) \<and> status x = ''OPEN'' \<and> \<not> fully_allocated db run x)"
  using already_allocated_iff [OF assms, of x run]
  by (auto simp: orders_todo_def Let_def)


subsection \<open>All the preemptions of a pass\<close>

lemma hold_in_fields:
  "order_id (hold_in H x) = order_id x" "quantity (hold_in H x) = quantity x"
  "o_product_id (hold_in H x) = o_product_id x" "start_date (hold_in H x) = start_date x"
  "dispatch_date (hold_in H x) = dispatch_date x" "is_spike (hold_in H x) = is_spike x"
  "priority (hold_in H x) = priority x"
  by (simp_all add: hold_in_def put_on_hold_def)

lemma hold_in_status:
  "status (hold_in H x) = (if order_id x \<in> H then ''ON_HOLD'' else status x)"
  by (simp add: hold_in_def put_on_hold_def)

lemma hold_in_empty: "hold_in {} x = x"
  by (simp add: hold_in_def)

lemma hold_in_twice: "hold_in A (hold_in B x) = hold_in (A \<union> B) x"
  by (simp add: hold_in_def put_on_hold_def)

lemma hold_in_not: "order_id x \<notin> H \<Longrightarrow> hold_in H x = x"
  by (simp add: hold_in_def)

lemma map_order_id_hold: "map order_id (map (hold_in H) os) = map order_id os"
  by (simp add: hold_in_fields)

lemma competes_hold:
  "order_id x \<in> H \<longrightarrow> status x = ''OPEN'' \<or> status x = ''ON_HOLD'' \<Longrightarrow>
   competes s (hold_in H x) = competes s x"
  by (auto simp: competes_def hold_in_fields hold_in_status)

lemma held_ids_stable:
  assumes "holdable db0 H" and "orders db = map (hold_in H) (orders db0)"
  shows "held_ids s db = held_ids s db0"
proof -
  have "\<And>x. x \<in> set (orders db0) \<Longrightarrow> competes s (hold_in H x) = competes s x"
    using assms(1) by (intro competes_hold) (simp add: holdable_def)
  then have "{x \<in> set (map (hold_in H) (orders db0)). competes s x}
               = hold_in H ` {x \<in> set (orders db0). competes s x}"
    by auto
  then show ?thesis
    unfolding held_ids_def assms(2) by (simp add: image_image hold_in_fields)
qed

lemma held_ids_holdable:
  assumes "distinct (map order_id (orders db))"
  shows "holdable db (held_ids s db)"
  unfolding holdable_def
proof (intro ballI impI)
  fix x assume "x \<in> set (orders db)" "order_id x \<in> held_ids s db"
  with held_id_iff [OF assms] have "competes s x" by blast
  then show "status x = ''OPEN'' \<or> status x = ''ON_HOLD''" by (simp add: competes_def)
qed

lemma holdable_union: "holdable db A \<Longrightarrow> holdable db B \<Longrightarrow> holdable db (A \<union> B)"
  by (auto simp: holdable_def)

lemma preempt_all_effect:
  assumes "distinct (map order_id (orders db0))"
  shows "holdable db0 H0 \<Longrightarrow> orders db = map (hold_in H0) (orders db0) \<Longrightarrow>
     orders (fst (preempt_all run spikes (db, occ)))
       = map (hold_in (H0 \<union> held_all spikes db0)) (orders db0)
     \<and> holdable db0 (H0 \<union> held_all spikes db0)
     \<and> order_allocations (fst (preempt_all run spikes (db, occ)))
         = filter (\<lambda>a. \<not> (oa_run_id a = run \<and> oa_order_id a \<in> held_all spikes db0))
             (order_allocations db)
     \<and> product_plans (fst (preempt_all run spikes (db, occ)))
         = filter (\<lambda>p. plan_id p \<notin> mk_plan_id run ` held_all spikes db0) (product_plans db)
     \<and> (\<exists>P. plan_items (fst (preempt_all run spikes (db, occ))) = filter P (plan_items db))
     \<and> lines (fst (preempt_all run spikes (db, occ))) = lines db
     \<and> plan_runs (fst (preempt_all run spikes (db, occ))) = plan_runs db"
proof (induction spikes arbitrary: H0 db occ)
  case Nil
  have "\<exists>P. plan_items db = filter P (plan_items db)"
    by (rule exI [of _ "\<lambda>_. True"]) simp
  with Nil show ?case by (simp add: preempt_all_def held_all_def)
next
  case (Cons s spikes)
  let ?s = "handle_spike_preemption run s db"
  let ?K = "held_ids s db0"
  note t = preemption_tables [of run s db]
  have hk: "held_ids s db = ?K" using Cons.prems by (rule held_ids_stable)
  have o1: "orders (fst ?s) = map (hold_in (H0 \<union> ?K)) (orders db0)"
    unfolding t(4) hk Cons.prems(2)
    by (simp add: hold_in_def [of ?K, symmetric] hold_in_twice Un_commute)
  have h1: "holdable db0 (H0 \<union> ?K)"
    using Cons.prems(1) held_ids_holdable [OF assms] by (rule holdable_union)
  have step: "preempt_all run (s # spikes) (db, occ) = preempt_all run spikes (fst ?s, snd ?s)"
    by (simp add: preempt_all_def)
  have un: "H0 \<union> ?K \<union> held_all spikes db0 = H0 \<union> held_all (s # spikes) db0"
    "held_all (s # spikes) db0 = ?K \<union> held_all spikes db0"
    by (auto simp: held_all_def)
  from Cons.IH [OF h1 o1, of "snd ?s"] obtain P where ih:
    "orders (fst (preempt_all run spikes (fst ?s, snd ?s)))
       = map (hold_in (H0 \<union> ?K \<union> held_all spikes db0)) (orders db0)"
    "holdable db0 (H0 \<union> ?K \<union> held_all spikes db0)"
    "order_allocations (fst (preempt_all run spikes (fst ?s, snd ?s)))
         = filter (\<lambda>a. \<not> (oa_run_id a = run \<and> oa_order_id a \<in> held_all spikes db0))
             (order_allocations (fst ?s))"
    "product_plans (fst (preempt_all run spikes (fst ?s, snd ?s)))
         = filter (\<lambda>p. plan_id p \<notin> mk_plan_id run ` held_all spikes db0) (product_plans (fst ?s))"
    "plan_items (fst (preempt_all run spikes (fst ?s, snd ?s))) = filter P (plan_items (fst ?s))"
    "lines (fst (preempt_all run spikes (fst ?s, snd ?s))) = lines (fst ?s)"
    "plan_runs (fst (preempt_all run spikes (fst ?s, snd ?s))) = plan_runs (fst ?s)"
    by blast
  have a: "order_allocations (fst (preempt_all run (s # spikes) (db, occ)))
         = filter (\<lambda>a. \<not> (oa_run_id a = run \<and> oa_order_id a \<in> held_all (s # spikes) db0))
             (order_allocations db)"
    unfolding step ih(3) t(1) hk filter_filter_conj un(2)
    by (rule filter_cong [OF refl]) auto
  have p: "product_plans (fst (preempt_all run (s # spikes) (db, occ)))
         = filter (\<lambda>p. plan_id p \<notin> mk_plan_id run ` held_all (s # spikes) db0) (product_plans db)"
    unfolding step ih(4) t(2) hk filter_filter_conj un(2)
    by (rule filter_cong [OF refl]) auto
  have i: "\<exists>P. plan_items (fst (preempt_all run (s # spikes) (db, occ))) = filter P (plan_items db)"
    unfolding step ih(5) t(3) filter_filter_conj by blast
  from ih(1,2) a p i ih(6,7) t(5,8) show ?case
    unfolding step un(1) by simp
qed


subsection \<open>The loop over the orders\<close>

lemma has_plan_mono:
  "product_plans db' = product_plans db @ plans \<Longrightarrow> has_plan db run k \<Longrightarrow> has_plan db' run k"
  by (auto simp: has_plan_def list_ex_iff)

lemma plan_order_has_plan:
  assumes "distinct (map line_id (lines (ps_db st)))"
    and "lines_of (ps_db st) ord \<noteq> []"
  shows "has_plan (ps_db (plan_order today hdd run stock ord st)) run (order_id ord)"
proof (cases "has_plan (ps_db st) run (order_id ord)")
  case True
  with plan_order_effect(2) [OF assms(1) refl refl, of ord run today hdd stock]
  have "product_plans (ps_db (plan_order today hdd run stock ord st)) = product_plans (ps_db st)"
    by simp
  from has_plan_cong [OF this] True show ?thesis by simp
next
  case False
  from assms(2) have ne: "filter (\<lambda>l. l_product_id l = o_product_id ord) (lines (ps_db st)) \<noteq> []"
    by (simp add: lines_of_def)
  from plan_order_effect(3) [OF assms(1) refl refl ne False, of today hdd stock]
  obtain plan where "product_plans (ps_db (plan_order today hdd run stock ord st))
                       = product_plans (ps_db st) @ [plan]"
    "plan_id plan = mk_plan_id run (order_id ord)"
    by blast
  then show ?thesis by (simp add: has_plan_append)
qed

lemma plan_order_rows:
  assumes "distinct (map line_id (lines (ps_db st)))"
  shows "same_master (ps_db st) (ps_db (plan_order today hdd run stock ord st))
     \<and> (\<exists>plans. product_plans (ps_db (plan_order today hdd run stock ord st))
                   = product_plans (ps_db st) @ plans)
     \<and> (\<exists>new. order_allocations (ps_db (plan_order today hdd run stock ord st))
                 = order_allocations (ps_db st) @ new
               \<and> rows_for run (order_id ord) new)
     \<and> (\<exists>items. plan_items (ps_db (plan_order today hdd run stock ord st))
                   = plan_items (ps_db st) @ items)"
proof (cases "lines_of (ps_db st) ord = [] \<or> has_plan (ps_db st) run (order_id ord)")
  case True
  then have c: "filter (\<lambda>l. l_product_id l = o_product_id ord) (lines (ps_db st)) = []
                \<or> has_plan (ps_db st) run (order_id ord)"
    by (simp add: lines_of_def)
  from plan_order_effect(1) [OF assms refl refl] plan_order_effect(2) [OF assms refl refl c]
  have "same_master (ps_db st) (ps_db (plan_order today hdd run stock ord st))"
    "product_plans (ps_db (plan_order today hdd run stock ord st)) = product_plans (ps_db st) @ []"
    "order_allocations (ps_db (plan_order today hdd run stock ord st))
       = order_allocations (ps_db st) @ []"
    "plan_items (ps_db (plan_order today hdd run stock ord st)) = plan_items (ps_db st) @ []"
    by simp_all
  moreover have "rows_for run (order_id ord) []" by (simp add: rows_for_def)
  ultimately show ?thesis by blast
next
  case False
  then have ne: "filter (\<lambda>l. l_product_id l = o_product_id ord) (lines (ps_db st)) \<noteq> []"
    and np: "\<not> has_plan (ps_db st) run (order_id ord)"
    by (simp_all add: lines_of_def)
  from plan_order_effect(3) [OF assms refl refl ne np, of today hdd stock]
    plan_order_effect(1) [OF assms refl refl, of today hdd run stock ord]
  show ?thesis by blast
qed

lemma plan_loop_effect:
  "distinct (map line_id (lines (ps_db st))) \<Longrightarrow>
     same_master (ps_db st) (ps_db (fold (plan_order today hdd run stock) otp st))
     \<and> (\<exists>plans. product_plans (ps_db (fold (plan_order today hdd run stock) otp st))
                   = product_plans (ps_db st) @ plans)
     \<and> (\<exists>new. order_allocations (ps_db (fold (plan_order today hdd run stock) otp st))
                 = order_allocations (ps_db st) @ new
               \<and> (\<forall>a\<in>set new. oa_run_id a = run \<and> oa_order_id a \<in> order_id ` set otp))
     \<and> (\<exists>items. plan_items (ps_db (fold (plan_order today hdd run stock) otp st))
                   = plan_items (ps_db st) @ items)
     \<and> (\<forall>ord\<in>set otp. lines_of (ps_db st) ord \<noteq> [] \<longrightarrow>
           has_plan (ps_db (fold (plan_order today hdd run stock) otp st)) run (order_id ord))
     \<and> ((\<forall>ord\<in>set otp. lines_of (ps_db st) ord = [] \<or> has_plan (ps_db st) run (order_id ord)) \<longrightarrow>
           product_plans (ps_db (fold (plan_order today hdd run stock) otp st))
             = product_plans (ps_db st)
           \<and> order_allocations (ps_db (fold (plan_order today hdd run stock) otp st))
               = order_allocations (ps_db st)
           \<and> plan_items (ps_db (fold (plan_order today hdd run stock) otp st))
               = plan_items (ps_db st))"
proof (induction otp arbitrary: st)
  case Nil
  show ?case by (simp add: same_master_def)
next
  case (Cons ord otp)
  let ?st1 = "plan_order today hdd run stock ord st"
  let ?st' = "fold (plan_order today hdd run stock) otp ?st1"
  from plan_order_rows [OF Cons.prems, of today hdd run stock ord]
  obtain plans1 new1 items1 where s1: "same_master (ps_db st) (ps_db ?st1)"
    "product_plans (ps_db ?st1) = product_plans (ps_db st) @ plans1"
    "order_allocations (ps_db ?st1) = order_allocations (ps_db st) @ new1"
    "rows_for run (order_id ord) new1"
    "plan_items (ps_db ?st1) = plan_items (ps_db st) @ items1"
    by blast
  from s1(1) have l1: "lines (ps_db ?st1) = lines (ps_db st)" by (simp add: same_master_def)
  with Cons.prems have d1: "distinct (map line_id (lines (ps_db ?st1)))" by simp
  have lo: "lines_of (ps_db ?st1) x = lines_of (ps_db st) x" for x
    using l1 by (rule lines_of_cong)
  from Cons.IH [OF d1] obtain plans new items where ih:
    "same_master (ps_db ?st1) (ps_db ?st')"
    "product_plans (ps_db ?st') = product_plans (ps_db ?st1) @ plans"
    "order_allocations (ps_db ?st') = order_allocations (ps_db ?st1) @ new"
    "\<forall>a\<in>set new. oa_run_id a = run \<and> oa_order_id a \<in> order_id ` set otp"
    "plan_items (ps_db ?st') = plan_items (ps_db ?st1) @ items"
    "\<forall>x\<in>set otp. lines_of (ps_db ?st1) x \<noteq> [] \<longrightarrow> has_plan (ps_db ?st') run (order_id x)"
    "(\<forall>x\<in>set otp. lines_of (ps_db ?st1) x = [] \<or> has_plan (ps_db ?st1) run (order_id x)) \<longrightarrow>
           product_plans (ps_db ?st') = product_plans (ps_db ?st1)
           \<and> order_allocations (ps_db ?st') = order_allocations (ps_db ?st1)
           \<and> plan_items (ps_db ?st') = plan_items (ps_db ?st1)"
    by blast
  have c1: "same_master (ps_db st) (ps_db ?st')"
    using s1(1) ih(1) by (simp add: same_master_def)
  have c2: "product_plans (ps_db ?st') = product_plans (ps_db st) @ (plans1 @ plans)"
    using s1(2) ih(2) by simp
  have c3: "order_allocations (ps_db ?st') = order_allocations (ps_db st) @ (new1 @ new)"
    using s1(3) ih(3) by simp
  have c3b: "\<forall>a\<in>set (new1 @ new). oa_run_id a = run \<and> oa_order_id a \<in> order_id ` set (ord # otp)"
    using s1(4) ih(4) by (auto simp: rows_for_def list_all_iff)
  have c4: "plan_items (ps_db ?st') = plan_items (ps_db st) @ (items1 @ items)"
    using s1(5) ih(5) by simp
  have c5: "\<forall>x\<in>set (ord # otp). lines_of (ps_db st) x \<noteq> [] \<longrightarrow> has_plan (ps_db ?st') run (order_id x)"
  proof (intro ballI impI)
    fix x assume x: "x \<in> set (ord # otp)" and ne: "lines_of (ps_db st) x \<noteq> []"
    show "has_plan (ps_db ?st') run (order_id x)"
    proof (cases "x \<in> set otp")
      case True
      with ih(6) ne lo show ?thesis by simp
    next
      case False
      with x have "x = ord" by simp
      with ne have "has_plan (ps_db ?st1) run (order_id x)"
        using plan_order_has_plan [OF Cons.prems, of ord today hdd run stock] by simp
      with ih(2) show ?thesis by (rule has_plan_mono)
    qed
  qed
  have c6: "(\<forall>x\<in>set (ord # otp). lines_of (ps_db st) x = [] \<or> has_plan (ps_db st) run (order_id x)) \<longrightarrow>
           product_plans (ps_db ?st') = product_plans (ps_db st)
           \<and> order_allocations (ps_db ?st') = order_allocations (ps_db st)
           \<and> plan_items (ps_db ?st') = plan_items (ps_db st)"
  proof
    assume a: "\<forall>x\<in>set (ord # otp). lines_of (ps_db st) x = [] \<or> has_plan (ps_db st) run (order_id x)"
    then have "filter (\<lambda>l. l_product_id l = o_product_id ord) (lines (ps_db st)) = []
               \<or> has_plan (ps_db st) run (order_id ord)"
      by (simp add: lines_of_def)
    from plan_order_effect(2) [OF Cons.prems refl refl this]
    have e1: "product_plans (ps_db ?st1) = product_plans (ps_db st)"
      "order_allocations (ps_db ?st1) = order_allocations (ps_db st)"
      "plan_items (ps_db ?st1) = plan_items (ps_db st)"
      by simp_all
    have "\<forall>x\<in>set otp. lines_of (ps_db ?st1) x = [] \<or> has_plan (ps_db ?st1) run (order_id x)"
      using a lo has_plan_cong [OF e1(1)] by simp
    with ih(7) e1 show "product_plans (ps_db ?st') = product_plans (ps_db st)
           \<and> order_allocations (ps_db ?st') = order_allocations (ps_db st)
           \<and> plan_items (ps_db ?st') = plan_items (ps_db st)"
      by simp
  qed
  have "fold (plan_order today hdd run stock) (ord # otp) st = ?st'" by simp
  with c1 c2 c3 c3b c4 c5 c6 show ?case by (simp only:) blast
qed


lemma plan_order_distinct:
  assumes dl: "distinct (map line_id (lines (ps_db st)))"
    and dp: "distinct (map plan_id (product_plans (ps_db st)))"
  shows "distinct (map plan_id (product_plans (ps_db (plan_order today hdd run stock ord st))))"
proof (cases "lines_of (ps_db st) ord = [] \<or> has_plan (ps_db st) run (order_id ord)")
  case True
  then have "filter (\<lambda>l. l_product_id l = o_product_id ord) (lines (ps_db st)) = []
             \<or> has_plan (ps_db st) run (order_id ord)"
    by (simp add: lines_of_def)
  from plan_order_effect(2) [OF dl refl refl this] dp show ?thesis by simp
next
  case False
  then have ne: "filter (\<lambda>l. l_product_id l = o_product_id ord) (lines (ps_db st)) \<noteq> []"
    and np: "\<not> has_plan (ps_db st) run (order_id ord)"
    by (simp_all add: lines_of_def)
  from plan_order_effect(3) [OF dl refl refl ne np, of today hdd stock]
  obtain plan where "product_plans (ps_db (plan_order today hdd run stock ord st))
                       = product_plans (ps_db st) @ [plan]"
    "plan_id plan = mk_plan_id run (order_id ord)"
    by blast
  moreover from np have "mk_plan_id run (order_id ord) \<notin> plan_id ` set (product_plans (ps_db st))"
    by (auto simp: has_plan_def list_ex_iff)
  ultimately show ?thesis using dp by simp
qed

lemma plan_loop_distinct:
  "distinct (map line_id (lines (ps_db st))) \<Longrightarrow>
   distinct (map plan_id (product_plans (ps_db st))) \<Longrightarrow>
   distinct (map plan_id (product_plans (ps_db (fold (plan_order today hdd run stock) otp st))))"
proof (induction otp arbitrary: st)
  case Nil
  then show ?case by simp
next
  case (Cons ord otp)
  let ?st1 = "plan_order today hdd run stock ord st"
  from plan_order_effect(1) [OF Cons.prems(1) refl refl, of today hdd run stock ord] Cons.prems(1)
  have "distinct (map line_id (lines (ps_db ?st1)))" by (simp add: same_master_def)
  moreover have "distinct (map plan_id (product_plans (ps_db ?st1)))"
    using Cons.prems by (rule plan_order_distinct)
  ultimately show ?case using Cons.IH [of ?st1] by simp
qed

subsection \<open>One planning pass\<close>

lemma held_all_cong: "orders db' = orders db \<Longrightarrow> held_all S db' = held_all S db"
  by (simp add: held_all_def held_ids_def)

lemma orders_todo_cong:
  "orders db' = orders db \<Longrightarrow> order_allocations db' = order_allocations db \<Longrightarrow>
   orders_todo db' run = orders_todo db run"
  by (simp add: orders_todo_def get_already_allocated_orders_def)

lemma sort_orders_Inr:
  assumes "sort_orders xs = Inr otp"
  shows "set otp = set xs"
    and "\<forall>a\<in>set xs. \<forall>b\<in>set xs. py_comparable (order_sort_key a) (order_sort_key b)"
  using assms by (auto simp: sort_orders_def list_all_iff split: if_splits)

lemma sorted_desc_Nil: "(rev (sort_key f (rev xs)) = []) = (xs = [])"
proof -
  have "length (rev (sort_key f (rev xs))) = length xs" by simp
  then show ?thesis by (metis length_0_conv)
qed

lemma latest_baseline_None: "(latest_baseline runs = None) = (filter is_baseline runs = [])"
proof -
  let ?bs = "filter (\<lambda>r. scenario r = ''BASELINE'') runs"
  have eq: "filter is_baseline runs = ?bs"
    by (rule filter_cong) (simp_all add: is_baseline_def)
  have "(latest_baseline runs = None) = (rev (sort_key created_at (rev ?bs)) = [])"
    by (cases "rev (sort_key created_at (rev ?bs))") (simp_all add: latest_baseline_def)
  also have "\<dots> = (?bs = [])" by (rule sorted_desc_Nil)
  finally show ?thesis by (simp only: eq)
qed

lemma latest_baseline_new:
  assumes "filter is_baseline runs = []" and "is_baseline r"
  shows "latest_baseline (runs @ [r]) = Some r"
proof -
  have "filter is_baseline runs = filter (\<lambda>r. scenario r = ''BASELINE'') runs"
    by (rule filter_cong) (simp_all add: is_baseline_def)
  with assms have "filter (\<lambda>r. scenario r = ''BASELINE'') (runs @ [r]) = [r]"
    by (simp add: is_baseline_def)
  then show ?thesis by (simp add: latest_baseline_def)
qed

lemma pass_shape:
  assumes "plan_all_open_orders today nid now hdd db = Inr (run, db')"
  obtains the_run is_new db1 otp stock occ where
    "get_or_create_plan_run nid now db = Inr (the_run, is_new, db1)"
    "run = run_id the_run"
    "set otp = set (orders_todo db run)"
    "\<forall>a\<in>set otp. \<forall>b\<in>set otp. py_comparable (order_sort_key a) (order_sort_key b)"
    "db' = ps_db (fold (plan_order today hdd run stock) otp
                    \<lparr>ps_db = fst (preempt_all run (filter is_spike (orders_todo db run))
                                    (add_profiles is_new run db1, occ)),
                     ps_planned_usage = Map.empty,
                     ps_line_occupancy = snd (preempt_all run (filter is_spike (orders_todo db run))
                                    (add_profiles is_new run db1, occ))\<rparr>)"
proof -
  from assms obtain the_run is_new db1 where
    g: "get_or_create_plan_run nid now db = Inr (the_run, is_new, db1)"
    and c: "orders_todo (add_profiles is_new (run_id the_run) db1) (run_id the_run) = []
       \<and> run = run_id the_run \<and> db' = add_profiles is_new (run_id the_run) db1
     \<or> orders_todo (add_profiles is_new (run_id the_run) db1) (run_id the_run) \<noteq> []
       \<and> plan_todo today hdd (run_id the_run) (stock_by_material_of (inv_items db1))
            (orders_todo (add_profiles is_new (run_id the_run) db1) (run_id the_run))
            (add_profiles is_new (run_id the_run) db1,
             get_line_occupancy (add_profiles is_new (run_id the_run) db1) (run_id the_run))
           = Inr (run, db')"
    by (rule pass_unfold)
  let ?r = "run_id the_run"
  let ?db2 = "add_profiles is_new ?r db1"
  have todo: "orders_todo ?db2 r = orders_todo db r" for r
    by (rule orders_todo_cong)
       (simp_all add: add_profiles_tables get_or_create_tables(1,4) [OF g])
  from c show ?thesis
  proof (elim disjE conjE)
    assume e: "orders_todo ?db2 ?r = []" and r: "run = ?r" and d: "db' = ?db2"
    from e todo have t: "orders_todo db ?r = []" by simp
    show ?thesis
      by (rule that [of the_run is_new db1 "[]" Map.empty Map.empty])
         (simp_all add: g r t d preempt_all_def)
  next
    assume "plan_todo today hdd ?r (stock_by_material_of (inv_items db1)) (orders_todo ?db2 ?r)
              (?db2, get_line_occupancy ?db2 ?r) = Inr (run, db')"
    then obtain otp where
      s: "sort_orders (filter is_spike (orders_todo ?db2 ?r)
                       @ filter (\<lambda>x. \<not> is_spike x) (orders_todo ?db2 ?r)) = Inr otp"
      and r: "run = ?r"
      and d: "db' = ps_db (fold (plan_order today hdd ?r (stock_by_material_of (inv_items db1))) otp
                    \<lparr>ps_db = fst (preempt_all ?r (filter is_spike (orders_todo ?db2 ?r))
                                    (?db2, get_line_occupancy ?db2 ?r)),
                     ps_planned_usage = Map.empty,
                     ps_line_occupancy = snd (preempt_all ?r (filter is_spike (orders_todo ?db2 ?r))
                                    (?db2, get_line_occupancy ?db2 ?r))\<rparr>)"
      by (rule plan_todo_unfold)
    from sort_orders_Inr [OF s] have so: "set otp = set (orders_todo ?db2 ?r)"
      "\<forall>a\<in>set otp. \<forall>b\<in>set otp. py_comparable (order_sort_key a) (order_sort_key b)"
      by auto
    show ?thesis
      by (rule that [of the_run is_new db1 otp "stock_by_material_of (inv_items db1)"
                        "get_line_occupancy ?db2 ?r"])
         (use g r so d todo in simp_all)
  qed
qed


lemma has_plan_filter:
  assumes "product_plans db' = filter (\<lambda>p. plan_id p \<notin> mk_plan_id run ` H) (product_plans db)"
  shows "has_plan db' run k = (has_plan db run k \<and> k \<notin> H)"
proof -
  have "(mk_plan_id run k \<in> mk_plan_id run ` H) = (k \<in> H)"
    using mk_plan_id_inj [of run k] by blast
  then have "(\<exists>p\<in>set (product_plans db). plan_id p \<notin> mk_plan_id run ` H \<and> plan_id p = mk_plan_id run k)
        = ((\<exists>p\<in>set (product_plans db). plan_id p = mk_plan_id run k) \<and> k \<notin> H)"
    by metis
  moreover have "has_plan db' run k
      = (\<exists>p\<in>set (product_plans db). plan_id p \<notin> mk_plan_id run ` H \<and> plan_id p = mk_plan_id run k)"
    using assms by (auto simp: has_plan_def list_ex_iff)
  moreover have "has_plan db run k = (\<exists>p\<in>set (product_plans db). plan_id p = mk_plan_id run k)"
    by (simp add: has_plan_def list_ex_iff)
  ultimately show ?thesis by (simp only:)
qed

lemma holdable_cong: "orders db' = orders db \<Longrightarrow> holdable db' H = holdable db H"
  by (simp add: holdable_def)

lemma pass_effect:
  assumes do: "distinct (map order_id (orders db))" and dl: "distinct (map line_id (lines db))"
    and pass: "plan_all_open_orders today nid now hdd db = Inr (run, db')"
  shows "orders db' = map (hold_in (held_by_pass db run)) (orders db)"
    and "holdable db (held_by_pass db run)"
    and "lines db' = lines db"
    and "\<exists>plans. product_plans db'
           = filter (\<lambda>p. plan_id p \<notin> mk_plan_id run ` held_by_pass db run) (product_plans db) @ plans"
    and "\<exists>new. order_allocations db'
           = filter (\<lambda>a. \<not> (oa_run_id a = run \<and> oa_order_id a \<in> held_by_pass db run))
               (order_allocations db) @ new
         \<and> (\<forall>a\<in>set new. oa_run_id a = run \<and> oa_order_id a \<in> order_id ` set (orders_todo db run))"
    and "\<forall>x\<in>set (orders_todo db run). lines_of db x \<noteq> [] \<longrightarrow> has_plan db' run (order_id x)"
    and "(\<forall>x\<in>set (orders_todo db run).
            lines_of db x = [] \<or> has_plan db run (order_id x) \<and> order_id x \<notin> held_by_pass db run)
         \<Longrightarrow> subseq (product_plans db') (product_plans db)
             \<and> subseq (plan_items db') (plan_items db)
             \<and> subseq (order_allocations db') (order_allocations db)"
    and "\<forall>a\<in>set (orders_todo db run). \<forall>b\<in>set (orders_todo db run).
           py_comparable (order_sort_key a) (order_sort_key b)"
    and "plan_runs db' = plan_runs db \<and> filter is_baseline (plan_runs db) \<noteq> []
         \<or> filter is_baseline (plan_runs db) = []
           \<and> (\<exists>r. plan_runs db' = plan_runs db @ [r] \<and> is_baseline r)"
    and "\<exists>r. latest_baseline (plan_runs db') = Some r \<and> run_id r = run"
    and "distinct (map plan_id (product_plans db)) \<Longrightarrow> distinct (map plan_id (product_plans db'))"
proof -
  let ?T = "orders_todo db run"
  let ?S = "filter is_spike ?T"
  let ?H = "held_by_pass db run"
  from pass obtain the_run is_new db1 otp stock occ where
    g: "get_or_create_plan_run nid now db = Inr (the_run, is_new, db1)"
    and r: "run = run_id the_run"
    and so: "set otp = set ?T"
    and cmp: "\<forall>a\<in>set otp. \<forall>b\<in>set otp. py_comparable (order_sort_key a) (order_sort_key b)"
    and d: "db' = ps_db (fold (plan_order today hdd run stock) otp
                    \<lparr>ps_db = fst (preempt_all run ?S (add_profiles is_new run db1, occ)),
                     ps_planned_usage = Map.empty,
                     ps_line_occupancy = snd (preempt_all run ?S (add_profiles is_new run db1, occ))\<rparr>)"
    by (rule pass_shape)
  let ?db2 = "add_profiles is_new run db1"
  let ?db3 = "fst (preempt_all run ?S (?db2, occ))"
  let ?st = "\<lparr>ps_db = ?db3, ps_planned_usage = Map.empty,
              ps_line_occupancy = snd (preempt_all run ?S (?db2, occ))\<rparr>"
  have t2: "orders ?db2 = orders db" "lines ?db2 = lines db"
    "product_plans ?db2 = product_plans db" "order_allocations ?db2 = order_allocations db"
    "plan_items ?db2 = plan_items db"
    "plan_runs ?db2 = (if is_new then plan_runs db @ [the_run] else plan_runs db)"
    by (simp_all add: add_profiles_tables get_or_create_tables [OF g])
  have H: "held_all ?S ?db2 = ?H"
    by (simp add: held_by_pass_def held_all_cong [OF t2(1)])
  have do2: "distinct (map order_id (orders ?db2))" using do t2(1) by simp
  have hold0: "holdable ?db2 {}" by (simp add: holdable_def)
  have ord0: "orders ?db2 = map (hold_in {}) (orders ?db2)"
    by (rule map_idI [symmetric]) (rule hold_in_empty)
  from preempt_all_effect [OF do2 hold0 ord0, where run = run and spikes = ?S and occ = occ]
  have p: "orders ?db3 = map (hold_in ?H) (orders db)" "holdable db ?H"
    "order_allocations ?db3
       = filter (\<lambda>a. \<not> (oa_run_id a = run \<and> oa_order_id a \<in> ?H)) (order_allocations db)"
    "product_plans ?db3 = filter (\<lambda>p. plan_id p \<notin> mk_plan_id run ` ?H) (product_plans db)"
    "\<exists>P. plan_items ?db3 = filter P (plan_items db)"
    "lines ?db3 = lines db" "plan_runs ?db3 = plan_runs ?db2"
    unfolding H using t2 holdable_cong [OF t2(1)] by simp_all
  have dl3: "distinct (map line_id (lines (ps_db ?st)))" using dl p(6) by simp
  from plan_loop_effect [OF dl3, of today hdd run stock otp] d
  obtain plans new items where
    sm: "same_master ?db3 db'"
    and pl: "product_plans db' = product_plans ?db3 @ plans"
    and al: "order_allocations db' = order_allocations ?db3 @ new"
      "\<forall>a\<in>set new. oa_run_id a = run \<and> oa_order_id a \<in> order_id ` set otp"
    and it: "plan_items db' = plan_items ?db3 @ items"
    and hp: "\<forall>ord\<in>set otp. lines_of ?db3 ord \<noteq> [] \<longrightarrow> has_plan db' run (order_id ord)"
    and no: "(\<forall>ord\<in>set otp. lines_of ?db3 ord = [] \<or> has_plan ?db3 run (order_id ord)) \<longrightarrow>
               product_plans db' = product_plans ?db3
               \<and> order_allocations db' = order_allocations ?db3
               \<and> plan_items db' = plan_items ?db3"
    by auto
  have lo: "lines_of ?db3 x = lines_of db x" for x using p(6) by (rule lines_of_cong)
  from sm p(1) show "orders db' = map (hold_in ?H) (orders db)" by (simp add: same_master_def)
  from p(2) show "holdable db ?H" .
  from sm p(6) show "lines db' = lines db" by (simp add: same_master_def)
  from pl p(4) show "\<exists>plans. product_plans db'
           = filter (\<lambda>p. plan_id p \<notin> mk_plan_id run ` ?H) (product_plans db) @ plans"
    by simp
  from al p(3) so show "\<exists>new. order_allocations db'
           = filter (\<lambda>a. \<not> (oa_run_id a = run \<and> oa_order_id a \<in> ?H)) (order_allocations db) @ new
         \<and> (\<forall>a\<in>set new. oa_run_id a = run \<and> oa_order_id a \<in> order_id ` set ?T)"
    by simp
  from hp so lo show "\<forall>x\<in>set ?T. lines_of db x \<noteq> [] \<longrightarrow> has_plan db' run (order_id x)"
    by simp
  from cmp so show "\<forall>a\<in>set ?T. \<forall>b\<in>set ?T. py_comparable (order_sort_key a) (order_sort_key b)"
    by simp
  have runs: "plan_runs db' = (if is_new then plan_runs db @ [the_run] else plan_runs db)"
    using sm p(7) t2(6) by (simp add: same_master_def)
  show "plan_runs db' = plan_runs db \<and> filter is_baseline (plan_runs db) \<noteq> []
         \<or> filter is_baseline (plan_runs db) = []
           \<and> (\<exists>r. plan_runs db' = plan_runs db @ [r] \<and> is_baseline r)"
  proof (cases is_new)
    case True
    with get_or_create_tables(9,11) [OF g] runs latest_baseline_None [of "plan_runs db"]
    show ?thesis by (simp add: is_baseline_def)
  next
    case False
    with get_or_create_tables(10) [OF g] runs latest_baseline_None [of "plan_runs db"]
    show ?thesis by simp
  qed
  show "\<exists>r. latest_baseline (plan_runs db') = Some r \<and> run_id r = run"
  proof (cases is_new)
    case True
    with get_or_create_tables(9,11) [OF g] latest_baseline_None [of "plan_runs db"]
    have "filter is_baseline (plan_runs db) = []" "is_baseline the_run"
      by (simp_all add: is_baseline_def)
    then have "latest_baseline (plan_runs db @ [the_run]) = Some the_run"
      by (rule latest_baseline_new)
    with True runs r show ?thesis by simp
  next
    case False
    with get_or_create_tables(10) [OF g] runs r show ?thesis by simp
  qed
  show "subseq (product_plans db') (product_plans db)
             \<and> subseq (plan_items db') (plan_items db)
             \<and> subseq (order_allocations db') (order_allocations db)"
    if a: "\<forall>x\<in>set ?T. lines_of db x = [] \<or> has_plan db run (order_id x) \<and> order_id x \<notin> ?H"
  proof -
    have "\<forall>ord\<in>set otp. lines_of ?db3 ord = [] \<or> has_plan ?db3 run (order_id ord)"
      using a so lo has_plan_filter [OF p(4)] by simp
    with no have e: "product_plans db' = product_plans ?db3"
      "order_allocations db' = order_allocations ?db3" "plan_items db' = plan_items ?db3"
      by simp_all
    from p(5) obtain P where P: "plan_items ?db3 = filter P (plan_items db)" by blast
    show ?thesis unfolding e p(3) p(4) P by simp
  qed
  show "distinct (map plan_id (product_plans db'))" if "distinct (map plan_id (product_plans db))"
  proof -
    from that have "distinct (map plan_id (product_plans (ps_db ?st)))"
      by (simp add: p(4) distinct_map_filter)
    from plan_loop_distinct [OF dl3 this, of today hdd run stock otp] d show ?thesis by simp
  qed
qed


subsection \<open>The second pass\<close>

lemma todo_shrinks:
  assumes do: "distinct (map order_id (orders db))" and dl: "distinct (map line_id (lines db))"
    and pass: "plan_all_open_orders today nid now hdd db = Inr (run, db')"
  shows "set (orders_todo db' run) \<subseteq> set (orders_todo db run)"
    and "\<forall>x\<in>set (orders_todo db' run). order_id x \<notin> held_by_pass db run"
    and "held_by_pass db' run \<subseteq> held_by_pass db run"
proof -
  let ?H = "held_by_pass db run"
  note e = pass_effect [OF do dl pass]
  have do': "distinct (map order_id (orders db'))"
    unfolding e(1) map_order_id_hold by (rule do)
  from e(5) obtain new where
    al: "order_allocations db'
           = filter (\<lambda>a. \<not> (oa_run_id a = run \<and> oa_order_id a \<in> ?H)) (order_allocations db) @ new"
    and new: "\<forall>a\<in>set new. oa_run_id a = run \<and> oa_order_id a \<in> order_id ` set (orders_todo db run)"
    by blast
  have main: "x \<in> set (orders_todo db run) \<and> order_id x \<notin> ?H"
    if x: "x \<in> set (orders_todo db' run)" for x
  proof -
    from x orders_todo_iff [OF do', of x run]
    have x': "x \<in> set (orders db')" "status x = ''OPEN''" "\<not> fully_allocated db' run x"
      by simp_all
    from x'(1) e(1) obtain x0 where x0: "x0 \<in> set (orders db)" "x = hold_in ?H x0" by auto
    have nh: "order_id x0 \<notin> ?H"
    proof
      assume "order_id x0 \<in> ?H"
      with x0(2) have "status x = ''ON_HOLD''" by (simp add: hold_in_status)
      with x'(2) show False by simp
    qed
    with x0 have xx: "x = x0" by (simp add: hold_in_not)
    with x0 nh have xo: "x \<in> set (orders db)" and xh: "order_id x \<notin> ?H" by simp_all
    have "x \<in> set (orders_todo db run)"
    proof (rule ccontr)
      assume nt: "x \<notin> set (orders_todo db run)"
      with xo x'(2) orders_todo_iff [OF do, of x run] have fa: "fully_allocated db run x" by simp
      have "filter (\<lambda>a. oa_run_id a = run \<and> oa_order_id a = order_id x) new = []"
      proof (rule ccontr)
        assume "filter (\<lambda>a. oa_run_id a = run \<and> oa_order_id a = order_id x) new \<noteq> []"
        then obtain a where "a \<in> set new" "oa_order_id a = order_id x"
          by (auto simp: filter_empty_conv)
        with new obtain y where y: "y \<in> set (orders_todo db run)" "order_id y = order_id x"
          by force
        from y(1) orders_todo_subset have "y \<in> set (orders db)" by blast
        moreover from do have "inj_on order_id (set (orders db))" by (simp add: distinct_map)
        ultimately have "y = x" using xo y(2) by (auto dest: inj_onD)
        with y(1) nt show False by simp
      qed
      moreover have "filter (\<lambda>a. oa_run_id a = run \<and> oa_order_id a = order_id x)
                       (filter (\<lambda>a. \<not> (oa_run_id a = run \<and> oa_order_id a \<in> ?H)) (order_allocations db))
                     = filter (\<lambda>a. oa_run_id a = run \<and> oa_order_id a = order_id x)
                         (order_allocations db)"
        unfolding filter_filter by (rule filter_cong) (use xh in auto)
      ultimately have "allocs_of db' run (order_id x) = allocs_of db run (order_id x)"
        by (simp add: allocs_of_def al)
      with fa have "fully_allocated db' run x"
        by (simp add: fully_allocated_def order_alloc_total_def)
      with x'(3) show False by simp
    qed
    with xh show ?thesis by simp
  qed
  from main show sub: "set (orders_todo db' run) \<subseteq> set (orders_todo db run)" by blast
  from main show "\<forall>x\<in>set (orders_todo db' run). order_id x \<notin> ?H" by blast
  have "held_ids s db' = held_ids s db" for s
    using e(2) e(1) by (rule held_ids_stable)
  with sub show "held_by_pass db' run \<subseteq> ?H"
    by (auto simp: held_by_pass_def held_all_def)
qed

lemma pass_succeeds:
  assumes "latest_baseline (plan_runs db) = Some r"
    and "\<forall>a\<in>set (orders_todo db (run_id r)). \<forall>b\<in>set (orders_todo db (run_id r)).
           py_comparable (order_sort_key a) (order_sort_key b)"
  shows "\<exists>db'. plan_all_open_orders today nid now hdd db = Inr (run_id r, db')"
proof -
  let ?T = "orders_todo db (run_id r)"
  let ?xs = "filter is_spike ?T @ filter (\<lambda>x. \<not> is_spike x) ?T"
  have g: "get_or_create_plan_run nid now db = Inr (r, False, db)"
    using assms(1) by (simp add: get_or_create_plan_run_def)
  have s: "sort_orders ?xs = Inr (sort_key order_sort_key ?xs)"
    using assms(2) by (auto simp: sort_orders_def list_all_iff)
  show ?thesis
    by (simp add: plan_all_open_orders_def g add_profiles_def Let_def plan_todo_def s
             split: prod.splits)
qed

lemma second_pass:
  assumes do: "distinct (map order_id (orders db))" and dl: "distinct (map line_id (lines db))"
    and pass: "plan_all_open_orders today nid now hdd db = Inr (run, db1)"
  shows "\<exists>db2. plan_all_open_orders today2 nid2 now2 hdd2 db1 = Inr (run, db2)
           \<and> subseq (product_plans db2) (product_plans db1)
           \<and> subseq (plan_items db2) (plan_items db1)
           \<and> subseq (order_allocations db2) (order_allocations db1)
           \<and> plan_runs db2 = plan_runs db1"
proof -
  note e = pass_effect [OF do dl pass]
  note t = todo_shrinks [OF do dl pass]
  have do1: "distinct (map order_id (orders db1))"
    unfolding e(1) map_order_id_hold by (rule do)
  from e(3) dl have dl1: "distinct (map line_id (lines db1))" by simp
  from e(10) obtain r where r: "latest_baseline (plan_runs db1) = Some r" "run_id r = run"
    by blast
  have cmp: "\<forall>a\<in>set (orders_todo db1 (run_id r)). \<forall>b\<in>set (orders_todo db1 (run_id r)).
               py_comparable (order_sort_key a) (order_sort_key b)"
    using e(8) t(1) r(2) by blast
  from pass_succeeds [OF r(1) cmp, of today2 nid2 now2 hdd2] r(2)
  obtain db2 where p2: "plan_all_open_orders today2 nid2 now2 hdd2 db1 = Inr (run, db2)"
    by auto
  note e2 = pass_effect [OF do1 dl1 p2]
  have "\<forall>x\<in>set (orders_todo db1 run).
          lines_of db1 x = [] \<or> has_plan db1 run (order_id x) \<and> order_id x \<notin> held_by_pass db1 run"
  proof
    fix x assume x: "x \<in> set (orders_todo db1 run)"
    with t have x1: "x \<in> set (orders_todo db run)" and nh: "order_id x \<notin> held_by_pass db1 run"
      by auto
    have "lines_of db1 x = lines_of db x" using e(3) by (rule lines_of_cong)
    with e(6) x1 nh
    show "lines_of db1 x = [] \<or> has_plan db1 run (order_id x) \<and> order_id x \<notin> held_by_pass db1 run"
      by auto
  qed
  from e2(7) [OF this]
  have sub: "subseq (product_plans db2) (product_plans db1)"
    "subseq (plan_items db2) (plan_items db1)"
    "subseq (order_allocations db2) (order_allocations db1)"
    by simp_all
  from r(1) latest_baseline_None [of "plan_runs db1"]
  have "filter is_baseline (plan_runs db1) \<noteq> []" by simp
  with e2(9) have "plan_runs db2 = plan_runs db1" by blast
  with p2 sub show ?thesis by blast
qed

lemma baseline_count:
  assumes do: "distinct (map order_id (orders db))" and dl: "distinct (map line_id (lines db))"
    and pass: "plan_all_open_orders today nid now hdd db = Inr (run, db1)"
  shows "length (filter is_baseline (plan_runs db1))
           = max 1 (length (filter is_baseline (plan_runs db)))"
proof -
  from pass_effect(9) [OF do dl pass] show ?thesis
  proof (elim disjE conjE exE)
    assume "plan_runs db1 = plan_runs db" "filter is_baseline (plan_runs db) \<noteq> []"
    moreover from this(2) have "1 \<le> length (filter is_baseline (plan_runs db))"
      by (cases "filter is_baseline (plan_runs db)") simp_all
    ultimately show ?thesis by simp
  next
    fix r assume "filter is_baseline (plan_runs db) = []" "plan_runs db1 = plan_runs db @ [r]"
      "is_baseline r"
    then show ?thesis by simp
  qed
qed


text \<open>
  C5. Planning twice, with no change of the store in between: when the first call of
  \<^verbatim>\<open>plan_all_open_orders\<close> returns a run, every second call returns the same run, whatever
  its date, clock and default horizon are, and it creates nothing: the product plans, the
  plan items and the order allocations after the second call are sublists of those after
  the first, and the plan runs are the same. A call that returns leaves exactly one
  \<^verbatim>\<open>BASELINE\<close> run in a store that had none or one (the number of such runs before, or one
  when there was none), and it leaves the identifiers of the product plans distinct when
  they were. Orders and lines are identified by their primary keys.
\<close>

theorem C5_replanning_creates_nothing:
  assumes "distinct (map order_id (orders db))" and "distinct (map line_id (lines db))"
    and "plan_all_open_orders today nid now hdd db = Inr (run, db1)"
  shows "(\<exists>db2. plan_all_open_orders today2 nid2 now2 hdd2 db1 = Inr (run, db2)
            \<and> subseq (product_plans db2) (product_plans db1)
            \<and> subseq (plan_items db2) (plan_items db1)
            \<and> subseq (order_allocations db2) (order_allocations db1)
            \<and> plan_runs db2 = plan_runs db1)
         \<and> length (filter is_baseline (plan_runs db1))
             = max 1 (length (filter is_baseline (plan_runs db)))
         \<and> (distinct (map plan_id (product_plans db)) \<longrightarrow> distinct (map plan_id (product_plans db1)))"
  using second_pass [OF assms, of today2 nid2 now2 hdd2] baseline_count [OF assms]
    pass_effect(11) [OF assms]
  by blast

lemma planned_db_again:
  "plan_all_open_orders 11 ''RUN-2'' 12 9 planned_db = Inr (''RUN-1'', planned_db)"
  by code_simp

lemma plan_db_keys:
  "distinct (map order_id (orders plan_db))" "distinct (map line_id (lines plan_db))"
  "plan_runs plan_db = []" "product_plans plan_db = []"
  by code_simp+

lemma planned_db_rows:
  "length (product_plans planned_db) = 1" "length (filter is_baseline (plan_runs planned_db)) = 1"
  by code_simp+

theorem C5_replanning_creates_nothing_witness:
  "plan_all_open_orders 10 ''RUN-1'' 9 9 plan_db = Inr (''RUN-1'', planned_db)
   \<and> (\<exists>db2. plan_all_open_orders 11 ''RUN-2'' 12 9 planned_db = Inr (''RUN-1'', db2)
         \<and> subseq (product_plans db2) (product_plans planned_db)
         \<and> subseq (plan_items db2) (plan_items planned_db)
         \<and> subseq (order_allocations db2) (order_allocations planned_db)
         \<and> plan_runs db2 = plan_runs planned_db)
   \<and> length (filter is_baseline (plan_runs planned_db)) = 1
   \<and> distinct (map plan_id (product_plans planned_db))
   \<and> length (product_plans planned_db) = 1"
  using C5_replanning_creates_nothing [OF plan_db_keys(1,2) plan_db_pass, of 11 "''RUN-2''" 12 9]
    plan_db_pass plan_db_keys(3,4) planned_db_rows
  by simp

section \<open>The ledger in a tick\<close>

lemma consume_bom_get:
  "dict_get (consume_bom b st) m 0
     = (if m = b_material_id b then max 0 (dict_get st m 0 - quantity_per_unit b)
        else dict_get st m 0)"
  by (simp add: consume_bom_def dict_get_def Let_def)

lemma consume_bom_nonneg: "ledger_nonneg st \<Longrightarrow> ledger_nonneg (consume_bom b st)"
  unfolding ledger_nonneg_def by (simp add: consume_bom_get)

lemma consume_unit_nonneg: "ledger_nonneg st \<Longrightarrow> ledger_nonneg (consume_unit bom_list st)"
  unfolding consume_unit_def
  by (induction bom_list arbitrary: st) (simp_all add: consume_bom_nonneg)

lemma consume_units_nonneg: "ledger_nonneg st \<Longrightarrow> ledger_nonneg (consume_units n bom_list st)"
  by (induction n arbitrary: st) (simp_all add: consume_unit_nonneg)

lemma consume_for_line_nonneg:
  "ledger_nonneg st \<Longrightarrow> ledger_nonneg (consume_for_line pbl idx l old_int new_int st)"
  by (simp add: consume_for_line_def consume_units_nonneg)

lemma consume_tick_nonneg:
  "ledger_nonneg st \<Longrightarrow> ledger_nonneg (consume_tick pbl idx counters st)"
  unfolding consume_tick_def
  by (induction counters arbitrary: st) (auto simp: consume_for_line_nonneg)

text \<open>Taking quantities that are not negative out of a stock that is not negative.\<close>

lemma floor_twice:
  fixes x q k :: int
  shows "0 \<le> q \<Longrightarrow> 0 \<le> k \<Longrightarrow> max 0 (max 0 (x - q) - k) = max 0 (x - (q + k))"
  by (simp add: max_def)

lemma unit_need_nonneg:
  "\<forall>b\<in>set bom_list. 0 \<le> quantity_per_unit b \<Longrightarrow> 0 \<le> unit_need bom_list m"
  unfolding unit_need_def by (induction bom_list) simp_all

lemma consume_unit_get:
  "\<forall>b\<in>set bom_list. 0 \<le> quantity_per_unit b \<Longrightarrow> 0 \<le> dict_get st m 0 \<Longrightarrow>
   dict_get (consume_unit bom_list st) m 0 = max 0 (dict_get st m 0 - unit_need bom_list m)"
proof (induction bom_list arbitrary: st)
  case Nil
  then show ?case by (simp add: consume_unit_def unit_need_def)
next
  case (Cons b bs)
  let ?st = "consume_bom b st"
  from Cons.prems have q: "0 \<le> quantity_per_unit b" and qs: "\<forall>b\<in>set bs. 0 \<le> quantity_per_unit b"
    by simp_all
  have v: "dict_get ?st m 0
             = (if m = b_material_id b then max 0 (dict_get st m 0 - quantity_per_unit b)
                else dict_get st m 0)"
    by (rule consume_bom_get)
  with Cons.prems(2) have "0 \<le> dict_get ?st m 0" by simp
  from Cons.IH [OF qs this]
  have ih: "dict_get (consume_unit bs ?st) m 0 = max 0 (dict_get ?st m 0 - unit_need bs m)" .
  have step: "consume_unit (b # bs) st = consume_unit bs ?st" by (simp add: consume_unit_def)
  show ?case
  proof (cases "m = b_material_id b")
    case True
    then have "unit_need (b # bs) m = quantity_per_unit b + unit_need bs m"
      by (simp add: unit_need_def)
    with ih v True floor_twice [OF q unit_need_nonneg [OF qs, of m], of "dict_get st m 0"] step
    show ?thesis by simp
  next
    case False
    then have "unit_need (b # bs) m = unit_need bs m" by (simp add: unit_need_def)
    with ih v False step show ?thesis by simp
  qed
qed

lemma consume_units_get:
  "\<forall>b\<in>set bom_list. 0 \<le> quantity_per_unit b \<Longrightarrow> 0 \<le> dict_get st m 0 \<Longrightarrow>
   dict_get (consume_units n bom_list st) m 0
     = max 0 (dict_get st m 0 - int n * unit_need bom_list m)"
proof (induction n arbitrary: st)
  case 0
  then show ?case by simp
next
  case (Suc n)
  let ?st = "consume_unit bom_list st"
  let ?u = "unit_need bom_list m"
  from Suc.prems have v: "dict_get ?st m 0 = max 0 (dict_get st m 0 - ?u)"
    by (rule consume_unit_get)
  then have "0 \<le> dict_get ?st m 0" by simp
  from Suc.IH [OF Suc.prems(1) this]
  have ih: "dict_get (consume_units n bom_list ?st) m 0 = max 0 (dict_get ?st m 0 - int n * ?u)" .
  have u: "0 \<le> ?u" using Suc.prems(1) by (rule unit_need_nonneg)
  then have nu: "0 \<le> int n * ?u" by simp
  have "int (Suc n) * ?u = ?u + int n * ?u" by (simp add: algebra_simps)
  with ih v floor_twice [OF u nu, of "dict_get st m 0"] show ?case by simp
qed

lemma bom_of_nonneg:
  "bom_nonneg idx \<Longrightarrow> \<forall>b\<in>set (bom_of pbl idx lin). 0 \<le> quantity_per_unit b"
  unfolding bom_nonneg_def bom_of_def dict_get_def
  by (auto split: option.splits) metis

lemma consume_for_line_get:
  assumes "bom_nonneg idx" and "0 \<le> dict_get st m 0"
  shows "dict_get (consume_for_line pbl idx lin old_int new_int st) m 0
           = max 0 (dict_get st m 0 - max 0 (new_int - old_int) * unit_need (bom_of pbl idx lin) m)"
proof -
  have "consume_for_line pbl idx lin old_int new_int st
          = consume_units (nat (max 0 (new_int - old_int))) (bom_of pbl idx lin) st"
    by (simp add: consume_for_line_def bom_of_def Let_def)
  with consume_units_get [OF bom_of_nonneg [OF assms(1)] assms(2),
      where n = "nat (max 0 (new_int - old_int))" and pbl1 = pbl and lin1 = lin]
  show ?thesis by simp
qed

lemma consume_tick_get:
  "bom_nonneg idx \<Longrightarrow> 0 \<le> dict_get st m 0 \<Longrightarrow>
   dict_get (consume_tick pbl idx counters st) m 0
     = max 0 (dict_get st m 0 - tick_need pbl idx counters m)"
proof (induction counters arbitrary: st)
  case Nil
  then show ?case by (simp add: consume_tick_def tick_need_def)
next
  case (Cons c counters)
  obtain lin old_int new_int where c: "c = (lin, old_int, new_int)" by (cases c)
  let ?st = "consume_for_line pbl idx lin old_int new_int st"
  let ?k = "max 0 (new_int - old_int) * unit_need (bom_of pbl idx lin) m"
  from Cons.prems have v: "dict_get ?st m 0 = max 0 (dict_get st m 0 - ?k)"
    by (rule consume_for_line_get)
  then have "0 \<le> dict_get ?st m 0" by simp
  from Cons.IH [OF Cons.prems(1) this]
  have ih: "dict_get (consume_tick pbl idx counters ?st) m 0
              = max 0 (dict_get ?st m 0 - tick_need pbl idx counters m)" .
  have k: "0 \<le> ?k"
    using unit_need_nonneg [OF bom_of_nonneg [OF Cons.prems(1)], of pbl lin m] by simp
  have t: "0 \<le> tick_need pbl idx counters m"
    unfolding tick_need_def
    using unit_need_nonneg [OF bom_of_nonneg [OF Cons.prems(1)], of pbl _ m]
    by (auto intro!: sum_list_nonneg)
  have "tick_need pbl idx (c # counters) m = ?k + tick_need pbl idx counters m"
    by (simp add: tick_need_def c)
  moreover have "consume_tick pbl idx (c # counters) st = consume_tick pbl idx counters ?st"
    by (simp add: consume_tick_def c)
  ultimately show ?case using ih v floor_twice [OF k t, of "dict_get st m 0"] by simp
qed

text \<open>The other two steps of a tick that concern the ledger: deliveries and new orders.\<close>

lemma delivery_nonneg:
  assumes "ledger_nonneg (inventory_state im)" and "pos_nonneg (purchase_orders db)"
  shows "ledger_nonneg (inventory_state (snd (update_purchase_orders today_d (db, im))))"
    and "pos_nonneg (purchase_orders (fst (update_purchase_orders today_d (db, im))))"
proof -
  have "0 \<le> po_qty_of (po_due today_d) m (purchase_orders db)" for m
    unfolding po_qty_of_def using assms(2) by (auto intro!: sum_list_nonneg simp: pos_nonneg_def)
  with assms(1) show "ledger_nonneg (inventory_state (snd (update_purchase_orders today_d (db, im))))"
    unfolding ledger_nonneg_def sweep_ledger by (simp add: add_nonneg_nonneg)
  from assms(2) show "pos_nonneg (purchase_orders (fst (update_purchase_orders today_d (db, im))))"
    unfolding sweep_rows by (auto simp: pos_nonneg_def mark_delivered_def)
qed

lemma placement_nonneg:
  assumes "pos_nonneg (purchase_orders db)"
    and "check_and_place_purchase_orders fmt today_d im db = Inr db'"
  shows "pos_nonneg (purchase_orders db')"
  unfolding pos_nonneg_def
proof
  fix po assume "po \<in> set (purchase_orders db')"
  then consider "po \<in> set (purchase_orders db)"
    | e where "po_eligible im (inv_by_id_of (inv_items db) (map fst (requirements_of im db)))
                 (suppliers db) (purchase_orders db) e"
        "po = po_for fmt today_d im (inv_by_id_of (inv_items db) (map fst (requirements_of im db)))
                 (suppliers db) e"
    unfolding sweep_result [OF assms(2)] by auto
  then show "0 \<le> po_quantity po"
  proof cases
    case 1
    with assms(1) show ?thesis by (simp add: pos_nonneg_def)
  next
    case 2
    from po_for_quantity [OF 2(1), of fmt today_d] 2(2) show ?thesis by simp
  qed
qed

text \<open>
  C6. The three steps of a tick that concern the ledger keep ``no ledger entry and no
  purchase order quantity is negative'': the delivery of the purchase orders that are due,
  the consumption by the units that the lines complete, and the placement of new purchase
  orders. Consumption, entry by entry: a BOM entry takes its quantity out of the ledger
  entry of its material, floored at zero, and leaves the other entries as they are. With
  a BOM index without negative quantities, the consumption of a tick leaves of every
  material the stock less the quantity that the completed units take (for every line the
  number of units times the quantities of the material in the BOM of its product),
  floored at zero; so it reduces the entry by exactly that quantity whenever the stock
  is sufficient (3 units at 2 per unit: 6).
\<close>

theorem C6_ledger_nonneg:
  "(ledger_nonneg (inventory_state im) \<and> pos_nonneg (purchase_orders db) \<longrightarrow>
      ledger_nonneg (inventory_state (snd (update_purchase_orders today_d (db, im))))
      \<and> pos_nonneg (purchase_orders (fst (update_purchase_orders today_d (db, im)))))
   \<and> (ledger_nonneg st \<longrightarrow> ledger_nonneg (consume_tick product_by_line bom_idx counters st))
   \<and> (pos_nonneg (purchase_orders db)
        \<and> check_and_place_purchase_orders fmt today_d im db = Inr db' \<longrightarrow>
        pos_nonneg (purchase_orders db'))
   \<and> dict_get (consume_bom b st) m 0
       = (if m = b_material_id b then max 0 (dict_get st m 0 - quantity_per_unit b)
          else dict_get st m 0)
   \<and> (ledger_nonneg st \<and> bom_nonneg bom_idx \<longrightarrow>
        dict_get (consume_tick product_by_line bom_idx counters st) m 0
          = max 0 (dict_get st m 0 - tick_need product_by_line bom_idx counters m))
   \<and> (ledger_nonneg st \<and> bom_nonneg bom_idx
        \<and> tick_need product_by_line bom_idx counters m \<le> dict_get st m 0 \<longrightarrow>
        dict_get (consume_tick product_by_line bom_idx counters st) m 0
          = dict_get st m 0 - tick_need product_by_line bom_idx counters m)"
proof -
  have get: "dict_get (consume_tick product_by_line bom_idx counters st) m 0
          = max 0 (dict_get st m 0 - tick_need product_by_line bom_idx counters m)"
    if "ledger_nonneg st" "bom_nonneg bom_idx"
    using that consume_tick_get [of bom_idx st m product_by_line counters]
    by (simp add: ledger_nonneg_def)
  show ?thesis
    using delivery_nonneg [of im db today_d] consume_tick_nonneg [of st product_by_line bom_idx counters]
      placement_nonneg [of db fmt today_d im db'] consume_bom_get [of b st m] get
    by auto
qed

lemma tick_example:
  "ledger_nonneg [''M'' \<mapsto> 10]" "bom_nonneg [''P'' \<mapsto> [bom_example]]"
  "tick_need [''L1'' \<mapsto> ''P''] [''P'' \<mapsto> [bom_example]] [(''L1'', 0, 3)] ''M'' = 6"
  "dict_get [''M'' \<mapsto> 10] ''M'' 0 = (10::int)"
  "ledger_nonneg (inventory_state inventory_example)" "pos_nonneg (purchase_orders supply_db)"
proof -
  show "ledger_nonneg [''M'' \<mapsto> 10]" "ledger_nonneg (inventory_state inventory_example)"
    by (simp_all add: ledger_nonneg_def dict_get_def inventory_example_def)
  show "bom_nonneg [''P'' \<mapsto> [bom_example]]"
    by (auto simp: bom_nonneg_def bom_example_def split: if_splits)
  show "tick_need [''L1'' \<mapsto> ''P''] [''P'' \<mapsto> [bom_example]] [(''L1'', 0, 3)] ''M'' = 6"
    by (simp add: tick_need_def unit_need_def bom_of_def dict_get_def bom_example_def)
  show "dict_get [''M'' \<mapsto> 10] ''M'' 0 = (10::int)" by (simp add: dict_get_def)
  show "pos_nonneg (purchase_orders supply_db)"
    by (simp add: pos_nonneg_def supply_db_def empty_db_def)
qed

theorem C6_ledger_nonneg_witness:
  "ledger_nonneg (consume_tick [''L1'' \<mapsto> ''P''] [''P'' \<mapsto> [bom_example]] [(''L1'', 0, 3)] [''M'' \<mapsto> 10])
   \<and> dict_get (consume_tick [''L1'' \<mapsto> ''P''] [''P'' \<mapsto> [bom_example]] [(''L1'', 0, 3)] [''M'' \<mapsto> 10])
        ''M'' 0 = 4
   \<and> ledger_nonneg (inventory_state (snd (update_purchase_orders 10 (supply_db, inventory_example))))
   \<and> pos_nonneg (purchase_orders restocked_db)"
  using C6_ledger_nonneg [of inventory_example supply_db 10 "[''M'' \<mapsto> 10]" "[''L1'' \<mapsto> ''P'']"
          "[''P'' \<mapsto> [bom_example]]" "[(''L1'', 0, 3)]" iso_example restocked_db bom_example "''M''"]
    tick_example restocked_db_run
  by simp

end
